theory Spec2Isabelle
  imports Main "HOL-Library.Signed_Division" "HOL-Library.Sublist"
begin

section \<open>Book Tracer: the data and enrichment layer of main.cpp\<close>

text \<open>
  The program is a single C++ file. Its strings are byte strings (\<open>std::string\<close>), modelled
  as \<open>string\<close>; its \<open>int\<close> is a 32-bit two's complement integer, modelled as \<open>int\<close> with
  the wrap-around written out wherever the source does arithmetic that can leave the range.
  The SQLite engine, the file system and the network are the environment: the store is a
  record of the table and the settings, with a schedule of statement outcomes through which
  a storage failure is injected; a file is its content; the network is a function from URLs
  to response bodies.
\<close>

subsection \<open>Characters and the C library\<close>

abbreviation NUL :: char where "NUL \<equiv> CHR 0x00"
abbreviation NL :: char where "NL \<equiv> CHR 0x0A"
abbreviation DQUOTE :: char where "DQUOTE \<equiv> CHR 0x22"
abbreviation COMMA :: char where "COMMA \<equiv> CHR '',''"

definition INT_MIN :: int where
  "INT_MIN = - 2147483648"

definition INT_MAX :: int where
  "INT_MAX = 2147483647"

definition wrap32 :: "int \<Rightarrow> int" where
  \<comment> \<open>The value a 32-bit two's complement register holds after an operation whose
      mathematical result is \<open>x\<close>. C++ leaves signed overflow undefined; this is what the
      hardware addition and subtraction produce.\<close>
  "wrap32 x = (x + 2147483648) mod 4294967296 - 2147483648"

definition isdigit :: "char \<Rightarrow> bool" where
  \<comment> \<open>\<open>std::isdigit\<close> on an unsigned char, in the C locale.\<close>
  "isdigit c = (48 \<le> (of_char c :: nat) \<and> (of_char c :: nat) \<le> 57)"

definition isspace :: "char \<Rightarrow> bool" where
  \<comment> \<open>\<open>isspace\<close> in the C locale: space, and the controls from tab to carriage return.\<close>
  "isspace c = ((of_char c :: nat) = 32 \<or> (9 \<le> (of_char c :: nat) \<and> (of_char c :: nat) \<le> 13))"

definition tolower :: "char \<Rightarrow> char" where
  \<comment> \<open>\<open>std::tolower\<close> on an unsigned char, in the C locale: only A to Z change.\<close>
  "tolower c = (if 65 \<le> (of_char c :: nat) \<and> (of_char c :: nat) \<le> 90
                then char_of ((of_char c :: nat) + 32) else c)"

definition c_str :: "string \<Rightarrow> string" where
  \<comment> \<open>What a C API reads from \<open>s.c_str()\<close> when given no length: the bytes before the
      first NUL (\<open>sqlite3_bind_text\<close> with length -1).\<close>
  "c_str s = takeWhile (\<lambda>c. c \<noteq> NUL) s"

definition digit_char :: "nat \<Rightarrow> char" where
  "digit_char d = char_of (48 + d)"

fun digits_of :: "nat \<Rightarrow> string" where
  "digits_of n = (if n < 10 then [digit_char n] else digits_of (n div 10) @ [digit_char (n mod 10)])"

declare digits_of.simps [simp del]

definition to_string :: "int \<Rightarrow> string" where
  \<comment> \<open>\<open>std::to_string(int)\<close>, and \<open>operator<<\<close> of an int on a stream with default
      formatting: decimal, a minus sign for a negative value.\<close>
  "to_string n = (if n < 0 then CHR ''-'' # digits_of (nat (- n)) else digits_of (nat n))"

definition decimal :: "string \<Rightarrow> int" where
  \<comment> \<open>The value of a run of decimal digits, accumulated from the left as \<open>strtol\<close> does.\<close>
  "decimal ds = foldl (\<lambda>acc c. 10 * acc + (int (of_char c) - 48)) 0 ds"

definition stoi :: "string \<Rightarrow> int option" where
  \<comment> \<open>\<open>std::stoi(s)\<close> in base 10: leading white space is skipped, one sign is read, then
      the longest run of digits; what follows is ignored. \<open>None\<close> stands for the exceptions:
      \<open>invalid_argument\<close> when there is no digit, \<open>out_of_range\<close> when the value is not an int.\<close>
  "stoi s =
     (let s1 = dropWhile isspace s;
          neg = (s1 \<noteq> [] \<and> hd s1 = CHR ''-'');
          s2 = (if s1 \<noteq> [] \<and> (hd s1 = CHR ''-'' \<or> hd s1 = CHR ''+'') then tl s1 else s1);
          ds = takeWhile isdigit s2;
          v = (if neg then - decimal ds else decimal ds)
      in if ds = [] then None
         else if v < INT_MIN \<or> INT_MAX < v then None
         else Some v)"

definition clamp :: "int \<Rightarrow> int \<Rightarrow> int \<Rightarrow> int" where
  \<comment> \<open>\<open>std::clamp(v, lo, hi)\<close>.\<close>
  "clamp v lo hi = (if v < lo then lo else if hi < v then hi else v)"

fun find_sub :: "string \<Rightarrow> string \<Rightarrow> bool" where
  \<comment> \<open>\<open>s.find(p) != std::string::npos\<close>: \<open>p\<close> occurs in \<open>s\<close>.\<close>
  "find_sub p [] = (p = [])"
| "find_sub p (c # cs) = (prefix p (c # cs) \<or> find_sub p cs)"

subsection \<open>The book record and the progress metrics\<close>

record Book =
  id_book :: int
  title :: string
  author :: string
  totalPages :: int
  currentPage :: int
  status :: int
  isbn :: string

definition daysToFinish :: "Book \<Rightarrow> int \<Rightarrow> int option" where
  \<comment> \<open>\<open>std::nullopt\<close> is \<open>None\<close>. The sum \<open>remaining + dailyRate - 1\<close> is evaluated left to
      right in 32 bits, and the division truncates.\<close>
  "daysToFinish b dailyRate =
     (if dailyRate \<le> 0 \<or> totalPages b \<le> currentPage b then None
      else let remaining = wrap32 (totalPages b - currentPage b)
           in Some (wrap32 (wrap32 (remaining + dailyRate) - 1) sdiv dailyRate))"

subsection \<open>ISBN utilities\<close>

fun onlyDigitsX :: "string \<Rightarrow> string" where
  "onlyDigitsX [] = []"
| "onlyDigitsX (c # s) =
     (if isdigit c \<or> c = CHR ''X'' \<or> c = CHR ''x''
      then (if c = CHR ''x'' then CHR ''X'' else c) # onlyDigitsX s
      else onlyDigitsX s)"

definition isIsbn10 :: "string \<Rightarrow> bool" where
  "isIsbn10 s = (length s = 10)"

definition isIsbn13 :: "string \<Rightarrow> bool" where
  "isIsbn13 s = (length s = 13)"

definition char_minus_zero :: "char \<Rightarrow> int" where
  \<comment> \<open>\<open>core[i] - '0'\<close>: the plain char is promoted to int; it is signed on the usual
      targets, so a byte from 128 counts as negative.\<close>
  "char_minus_zero c = (if (of_char c :: nat) < 128 then int (of_char c) else int (of_char c) - 256) - 48"

fun isbn_sum :: "string \<Rightarrow> nat \<Rightarrow> int \<Rightarrow> int" where
  \<comment> \<open>The loop of isbn10to13 from index \<open>i\<close> with the running sum.\<close>
  "isbn_sum [] i acc = acc"
| "isbn_sum (c # cs) i acc =
     isbn_sum cs (i + 1) (acc + (if i mod 2 = 0 then char_minus_zero c else 3 * char_minus_zero c))"

definition isbn10to13 :: "string \<Rightarrow> string" where
  "isbn10to13 s10 =
     (let core = ''978'' @ take 9 s10;
          acc = isbn_sum core 0 0;
          cd = (10 - (acc smod 10)) smod 10
      in core @ to_string cd)"

definition normalizeIsbn :: "string \<Rightarrow> string" where
  "normalizeIsbn inp =
     (let s = onlyDigitsX inp
      in if isIsbn13 s then s else if isIsbn10 s then isbn10to13 s else [])"

subsection \<open>The metadata lookup chain\<close>

text \<open>
  A JSON value as the nlohmann library holds it, reduced to what lookupIsbn reads: a number
  carries no payload here, since no number is ever read.
\<close>

datatype json =
    JNull
  | JBool bool
  | JNumber
  | JString string
  | JArray "json list"
  | JObject "(string \<times> json) list"

fun contains :: "json \<Rightarrow> string \<Rightarrow> bool" where
  \<comment> \<open>\<open>j.contains(key)\<close>: false on anything that is not an object.\<close>
  "contains (JObject kvs) k = (map_of kvs k \<noteq> None)"
| "contains _ k = False"

fun at_key :: "json \<Rightarrow> string \<Rightarrow> json option" where
  \<comment> \<open>\<open>j[key]\<close> on a non-const value: a missing key reads as null, null behaves as an
      empty object, and any other kind of value throws (\<open>None\<close>).\<close>
  "at_key (JObject kvs) k = Some (case map_of kvs k of Some v \<Rightarrow> v | None \<Rightarrow> JNull)"
| "at_key JNull k = Some JNull"
| "at_key _ k = None"

fun get_string :: "json \<Rightarrow> string option" where
  \<comment> \<open>\<open>j.get<std::string>()\<close>: throws (\<open>None\<close>) unless the value is a string.\<close>
  "get_string (JString s) = Some s"
| "get_string _ = None"

record LookupResult =
  title_r :: string
  author_r :: string

record World =
  httpGet :: "string \<Rightarrow> string option"
    \<comment> \<open>the body of a 2xx response to a GET of the URL, \<open>None\<close> on any transport or HTTP error\<close>
  json_parse :: "string \<Rightarrow> json option"
    \<comment> \<open>\<open>nlohmann::json::parse\<close>, \<open>None\<close> when it throws\<close>
  api_key :: "string option"
    \<comment> \<open>\<open>getenv("GOOGLE_BOOKS_API_KEY")\<close>\<close>
  g_useGoogleBooks :: bool
    \<comment> \<open>the global flag, set once by the startup checks\<close>

definition openLibraryUrl :: "string \<Rightarrow> string" where
  "openLibraryUrl isbn13 = ''https://openlibrary.org/isbn/'' @ isbn13 @ ''.json''"

definition googleBooksUrl :: "World \<Rightarrow> string \<Rightarrow> string" where
  "googleBooksUrl w isbn13 =
     ''https://www.googleapis.com/books/v1/volumes?q=isbn:'' @ isbn13 @
     (case api_key w of
        Some key \<Rightarrow> if key \<noteq> [] then ''&key='' @ key else []
      | None \<Rightarrow> [])"

definition openLibraryFields :: "json \<Rightarrow> LookupResult option" where
  \<comment> \<open>The body of the first try block, up to the test of the title: \<open>None\<close> when a
      field that is present is not a string, so that \<open>get\<close> throws.\<close>
  "openLibraryFields j =
     (case (if contains j ''title'' then Option.bind (at_key j ''title'') get_string else Some []) of
        None \<Rightarrow> None
      | Some t \<Rightarrow>
          (case (if contains j ''by_statement''
                 then Option.bind (at_key j ''by_statement'') get_string else Some []) of
             None \<Rightarrow> None
           | Some a \<Rightarrow> Some \<lparr>title_r = t, author_r = a\<rparr>))"

definition queryOpenLibrary :: "World \<Rightarrow> string \<Rightarrow> LookupResult option" where
  \<comment> \<open>What the first source yields: nothing when the request fails, the body does not
      parse or a field has the wrong type (the exception is swallowed).\<close>
  "queryOpenLibrary w isbn13 =
     (case httpGet w (openLibraryUrl isbn13) of
        None \<Rightarrow> None
      | Some body \<Rightarrow>
          (case json_parse w body of
             None \<Rightarrow> None
           | Some j \<Rightarrow> openLibraryFields j))"

definition googleBooksFields :: "json \<Rightarrow> LookupResult option" where
  \<comment> \<open>The body of the second try block, up to the test of title and author: the first
      element of \<open>items\<close>, its \<open>volumeInfo\<close>, the title and the first author. \<open>None\<close> when
      there is no item or an access throws.\<close>
  "googleBooksFields j =
     (case (if contains j ''items'' then at_key j ''items'' else None) of
        Some (JArray (item # rest)) \<Rightarrow>
          (case at_key item ''volumeInfo'' of
             None \<Rightarrow> None
           | Some vi \<Rightarrow>
               (case (if contains vi ''title'' then Option.bind (at_key vi ''title'') get_string
                      else Some []) of
                  None \<Rightarrow> None
                | Some t \<Rightarrow>
                    (case (if contains vi ''authors'' then at_key vi ''authors'' else None) of
                       Some (JArray (a # as)) \<Rightarrow>
                         (case get_string a of
                            None \<Rightarrow> None
                          | Some au \<Rightarrow> Some \<lparr>title_r = t, author_r = au\<rparr>)
                     | _ \<Rightarrow> Some \<lparr>title_r = t, author_r = []\<rparr>)))
      | _ \<Rightarrow> None)"

definition queryGoogleBooks :: "World \<Rightarrow> string \<Rightarrow> LookupResult option" where
  "queryGoogleBooks w isbn13 =
     (case httpGet w (googleBooksUrl w isbn13) of
        None \<Rightarrow> None
      | Some body \<Rightarrow>
          (case json_parse w body of
             None \<Rightarrow> None
           | Some j \<Rightarrow> googleBooksFields j))"

definition lookupIsbn :: "World \<Rightarrow> string \<Rightarrow> LookupResult option \<times> string list" where
  \<comment> \<open>The result, and the URLs requested through httpGet, in order.\<close>
  "lookupIsbn w rawIsbn =
     (let isbn13 = normalizeIsbn rawIsbn
      in if isbn13 = [] then (None, [])
         else
           (let first = queryOpenLibrary w isbn13
            in if (case first of Some r \<Rightarrow> title_r r \<noteq> [] | None \<Rightarrow> False)
               then (first, [openLibraryUrl isbn13])
               else if g_useGoogleBooks w
               then
                 (let second = queryGoogleBooks w isbn13
                  in if (case second of
                           Some r \<Rightarrow> title_r r \<noteq> [] \<or> author_r r \<noteq> []
                         | None \<Rightarrow> False)
                     then (second, [openLibraryUrl isbn13, googleBooksUrl w isbn13])
                     else (None, [openLibraryUrl isbn13, googleBooksUrl w isbn13]))
               else (None, [openLibraryUrl isbn13])))"

subsection \<open>The SQLite storage\<close>

text \<open>
  The state of the database as the program can observe it. \<open>books\<close> are the rows of the
  table; \<open>seq\<close> is the AUTOINCREMENT counter that the engine keeps for the table (the
  largest id it has given, which a deletion does not lower); \<open>settings\<close> is the settings
  table; \<open>txn\<close> holds, while a transaction is open, the database as it was at BEGIN;
  \<open>faults\<close> is the engine's schedule: each statement the program runs takes the next
  outcome. \<open>Failed\<close> is an error that undoes the statement alone (a busy database, a
  constraint), \<open>FailedRollback\<close> one on which the engine also rolls the open transaction
  back (a full disk, an I/O error). An empty schedule means that every statement succeeds.
\<close>

datatype outcome = Done | Failed | FailedRollback

record Storage =
  books :: "Book list"
  seq :: int
  settings :: "string \<rightharpoonup> string"
  txn :: "(Book list \<times> int \<times> (string \<rightharpoonup> string)) option"
  faults :: "outcome list"

definition rollback :: "Storage \<Rightarrow> Storage" where
  \<comment> \<open>The engine's rollback: the database is again what it was at BEGIN, and no
      transaction is open. The program itself never asks for it.\<close>
  "rollback st =
     (case txn st of
        None \<Rightarrow> st
      | Some (bs, s, m) \<Rightarrow> st\<lparr>books := bs, seq := s, settings := m, txn := None\<rparr>)"

definition next_outcome :: "Storage \<Rightarrow> bool \<times> Storage" where
  \<comment> \<open>Whether the statement now run fails, and the store in which it takes effect
      or has failed.\<close>
  "next_outcome st =
     (case faults st of
        [] \<Rightarrow> (False, st)
      | f # fs \<Rightarrow>
          (case f of
             Done \<Rightarrow> (False, st\<lparr>faults := fs\<rparr>)
           | Failed \<Rightarrow> (True, st\<lparr>faults := fs\<rparr>)
           | FailedRollback \<Rightarrow> (True, rollback (st\<lparr>faults := fs\<rparr>))))"

definition largest_id :: "Storage \<Rightarrow> int" where
  \<comment> \<open>What AUTOINCREMENT starts from: the larger of the counter and the largest id in
      the table.\<close>
  "largest_id st = fold max (map id_book (books st)) (seq st)"

datatype sql_command = BEGIN_TRANSACTION | COMMIT

definition exec :: "sql_command \<Rightarrow> Storage \<Rightarrow> Storage" where
  \<comment> \<open>\<open>exec\<close> prints the error of a failed statement and returns nothing: the caller
      cannot tell. A BEGIN inside an open transaction is an error of the engine, and so is
      a COMMIT outside one; neither has an effect.\<close>
  "exec cmd st =
     (case next_outcome st of
        (True, st') \<Rightarrow> st'
      | (False, st') \<Rightarrow>
          (case cmd of
             BEGIN_TRANSACTION \<Rightarrow>
               (case txn st' of
                  None \<Rightarrow> st'\<lparr>txn := Some (books st', seq st', settings st')\<rparr>
                | Some old \<Rightarrow> st')
           | COMMIT \<Rightarrow> st'\<lparr>txn := None\<rparr>))"

definition add :: "Book \<Rightarrow> Storage \<Rightarrow> int \<times> Storage" where
  \<comment> \<open>The INSERT names no id: the engine gives the row one more than the largest id
      that the table holds or has held, and moves the counter there. The three texts are
      bound from \<open>c_str()\<close> with length -1.\<close>
  "add b st =
     (case next_outcome st of
        (True, st') \<Rightarrow> (- 1, st')
      | (False, st') \<Rightarrow>
          (let i = largest_id st' + 1
           in (i, st'\<lparr>books := books st' @
                        [\<lparr>id_book = i, title = c_str (title b), author = c_str (author b),
                          totalPages = totalPages b, currentPage = currentPage b,
                          status = status b, isbn = c_str (isbn b)\<rparr>],
                      seq := i\<rparr>)))"

definition updateProgress :: "int \<Rightarrow> int \<Rightarrow> int \<Rightarrow> Storage \<Rightarrow> bool \<times> Storage" where
  "updateProgress i currentPage' status' st =
     (case next_outcome st of
        (True, st') \<Rightarrow> (False, st')
      | (False, st') \<Rightarrow>
          (True, st'\<lparr>books := map (\<lambda>b. if id_book b = i
                                         then b\<lparr>currentPage := currentPage', status := status'\<rparr>
                                         else b) (books st')\<rparr>))"

definition updateStatus :: "int \<Rightarrow> int \<Rightarrow> Storage \<Rightarrow> bool \<times> Storage" where
  \<comment> \<open>\<open>SET status=?, current_page=CASE WHEN ?=2 THEN total_pages ELSE current_page END\<close>:
      both right-hand sides read the row as it was before the update.\<close>
  "updateStatus i status' st =
     (case next_outcome st of
        (True, st') \<Rightarrow> (False, st')
      | (False, st') \<Rightarrow>
          (True, st'\<lparr>books := map (\<lambda>b. if id_book b = i
                                         then b\<lparr>status := status',
                                                currentPage := (if status' = 2 then totalPages b
                                                                else currentPage b)\<rparr>
                                         else b) (books st')\<rparr>))"

definition get :: "int \<Rightarrow> Storage \<Rightarrow> Book option \<times> Storage" where
  "get i st =
     (case next_outcome st of
        (True, st') \<Rightarrow> (None, st')
      | (False, st') \<Rightarrow> (find (\<lambda>b. id_book b = i) (books st'), st'))"

definition list_books :: "int option \<Rightarrow> Storage \<Rightarrow> Book list \<times> Storage" where
  \<comment> \<open>\<open>list\<close>: the rows, filtered by status when a filter is given, \<open>ORDER BY id ASC\<close>.\<close>
  "list_books statusFilter st =
     (case next_outcome st of
        (True, st') \<Rightarrow> ([], st')
      | (False, st') \<Rightarrow>
          (sort_key id_book
             (filter (\<lambda>b. case statusFilter of None \<Rightarrow> True | Some f \<Rightarrow> status b = f) (books st')),
           st'))"

definition utf8_lead :: "int \<Rightarrow> int" where
  \<comment> \<open>The payload bits of a lead byte from 0xC0, by SQLite's table.\<close>
  "utf8_lead b =
     (if b < 224 then b mod 32 else if b < 240 then b mod 16 else if b < 248 then b mod 8
      else if b < 252 then b mod 4 else if b < 254 then b mod 2 else 0)"

definition utf8_more :: "int \<Rightarrow> int \<Rightarrow> int" where
  \<comment> \<open>\<open>c = (c << 6) + (0x3f & b)\<close> on an unsigned 32-bit value.\<close>
  "utf8_more c b = (c * 64 + b mod 64) mod 4294967296"

definition utf8_done :: "int \<Rightarrow> int" where
  \<comment> \<open>An overlong form, a surrogate and the two non-characters read as U+FFFD.\<close>
  "utf8_done c =
     (if c < 128 \<or> (55296 \<le> c \<and> c < 57344) \<or> c = 65534 \<or> c = 65535 then 65533 else c)"

fun utf8_chars_from :: "string \<Rightarrow> int option \<Rightarrow> int list" where
  \<comment> \<open>The characters that SQLite reads from a text (\<open>sqlite3Utf8Read\<close>, one after the
      other): a byte below 0xC0 is a character by itself; a byte from 0xC0 starts a
      character that takes in every continuation byte (0x80 to 0xBF) that follows. The
      second argument is the character being read, if any.\<close>
  "utf8_chars_from [] None = []"
| "utf8_chars_from [] (Some c) = [utf8_done c]"
| "utf8_chars_from (b # bs) None =
     (if (of_char b :: int) < 192 then of_char b # utf8_chars_from bs None
      else utf8_chars_from bs (Some (utf8_lead (of_char b))))"
| "utf8_chars_from (b # bs) (Some c) =
     (if 128 \<le> (of_char b :: int) \<and> (of_char b :: int) < 192
      then utf8_chars_from bs (Some (utf8_more c (of_char b)))
      else utf8_done c #
           (if (of_char b :: int) < 192 then of_char b # utf8_chars_from bs None
            else utf8_chars_from bs (Some (utf8_lead (of_char b)))))"

definition utf8_chars :: "string \<Rightarrow> int list" where
  "utf8_chars s = utf8_chars_from s None"

definition ascii_lower :: "int \<Rightarrow> int" where
  "ascii_lower c = (if 65 \<le> c \<and> c \<le> 90 then c + 32 else c)"

fun like_chars :: "int list \<Rightarrow> int list \<Rightarrow> bool" where
  \<comment> \<open>SQLite's LIKE with no ESCAPE clause, on characters, the pattern first: a percent
      sign (37) matches any run of characters, an underscore (95) any one character, and
      any other character itself, letters of ASCII without regard to case.\<close>
  "like_chars [] t = (t = [])"
| "like_chars (p # ps) t =
     (if p = 37 then
        (like_chars ps t \<or> (case t of [] \<Rightarrow> False | c # cs \<Rightarrow> like_chars (p # ps) cs))
      else
        (case t of
           [] \<Rightarrow> False
         | c # cs \<Rightarrow>
             (p = c \<or> (p < 128 \<and> c < 128 \<and> ascii_lower p = ascii_lower c) \<or> p = 95) \<and>
             like_chars ps cs))"

declare like_chars.simps [simp del]

definition sql_like :: "string \<Rightarrow> string \<Rightarrow> bool" where
  \<comment> \<open>\<open>text LIKE pattern\<close> on two texts of the database, the pattern first.\<close>
  "sql_like p t = like_chars (utf8_chars p) (utf8_chars t)"

definition like_pattern_limit :: int where
  \<comment> \<open>\<open>SQLITE_MAX_LIKE_PATTERN_LENGTH\<close>, in bytes: on a longer pattern LIKE raises an error,
      \<open>sqlite3_step\<close> returns no row, and the loop of \<open>search\<close> ends at once.\<close>
  "like_pattern_limit = 50000"

definition sql_lower :: "string \<Rightarrow> string" where
  \<comment> \<open>SQLite's \<open>lower(X)\<close>: the letters of ASCII only.\<close>
  "sql_lower s = map tolower s"

definition search :: "string \<Rightarrow> Storage \<Rightarrow> Book list \<times> Storage" where
  "search q st =
     (case next_outcome st of
        (True, st') \<Rightarrow> ([], st')
      | (False, st') \<Rightarrow>
          (let pat = ''%'' @ q @ ''%'';
               patLower = map tolower pat;
               bound = c_str patLower
           in (if like_pattern_limit < int (length bound) then []
               else sort_key id_book
                      (filter (\<lambda>b. sql_like bound (sql_lower (title b)) \<or>
                                    sql_like bound (sql_lower (author b))) (books st')),
               st')))"

definition getDailyRate :: "Storage \<Rightarrow> int \<times> Storage" where
  "getDailyRate st =
     (case next_outcome st of
        (True, st') \<Rightarrow> (0, st')
      | (False, st') \<Rightarrow>
          (let rate = (case settings st' ''daily_rate'' of
                         None \<Rightarrow> 0
                       | Some v \<Rightarrow> (case stoi v of Some r \<Rightarrow> r | None \<Rightarrow> 0))
           in (max 0 rate, st')))"

definition setDailyRate :: "int \<Rightarrow> Storage \<Rightarrow> bool \<times> Storage" where
  "setDailyRate rate st =
     (case next_outcome st of
        (True, st') \<Rightarrow> (False, st')
      | (False, st') \<Rightarrow>
          (let s = to_string (max 0 rate)
           in (True, st'\<lparr>settings := (settings st')(''daily_rate'' \<mapsto> c_str s)\<rparr>)))"

subsection \<open>CSV export and import\<close>

definition strToIntSafe :: "string \<Rightarrow> int" where
  "strToIntSafe s = (case stoi s of Some v \<Rightarrow> v | None \<Rightarrow> 0)"

fun csvEscape :: "string \<Rightarrow> string" where
  \<comment> \<open>The loop of csvQuote: every quote character is written twice.\<close>
  "csvEscape [] = []"
| "csvEscape (c # s) = (if c = DQUOTE then DQUOTE # DQUOTE # csvEscape s else c # csvEscape s)"

definition csvQuote :: "string \<Rightarrow> string" where
  "csvQuote s = DQUOTE # csvEscape s @ [DQUOTE]"

fun csvParse_from :: "string \<Rightarrow> string \<Rightarrow> bool \<Rightarrow> string list" where
  \<comment> \<open>The loop of csvParse over the rest of the line, with the field being built \<open>cur\<close>
      and the flag \<open>inQ\<close>; the columns pushed from here on.\<close>
  "csvParse_from [] cur inQ = [cur]"
| "csvParse_from (c # cs) cur inQ =
     (if inQ then
        (if c = DQUOTE then
           (if cs \<noteq> [] \<and> hd cs = DQUOTE then csvParse_from (tl cs) (cur @ [DQUOTE]) True
            else csvParse_from cs cur False)
         else csvParse_from cs (cur @ [c]) True)
      else
        (if c = COMMA then cur # csvParse_from cs [] False
         else if c = DQUOTE then csvParse_from cs cur True
         else csvParse_from cs (cur @ [c]) False))"

definition csvParse :: "string \<Rightarrow> string list" where
  "csvParse line = csvParse_from line [] False"

fun getlines_from :: "string \<Rightarrow> string \<Rightarrow> string list" where
  \<comment> \<open>The lines that repeated \<open>std::getline\<close> delivers from the rest of a stream, \<open>cur\<close>
      being the characters of the current line already read: a line ends at a newline or
      at the end of the stream, and a read that meets the end with nothing extracted fails.\<close>
  "getlines_from [] cur = (if cur = [] then [] else [cur])"
| "getlines_from (c # cs) cur =
     (if c = NL then cur # getlines_from cs [] else getlines_from cs (cur @ [c]))"

definition getlines :: "string \<Rightarrow> string list" where
  "getlines content = getlines_from content []"

definition csvHeader :: string where
  "csvHeader = ''id,title,author,totalPages,currentPage,status,isbn''"

definition csvRow :: "Book \<Rightarrow> string" where
  \<comment> \<open>One iteration of the loop of exportCsv.\<close>
  "csvRow b =
     to_string (id_book b) @ '','' @ csvQuote (title b) @ '','' @ csvQuote (author b) @ '','' @
     to_string (totalPages b) @ '','' @ to_string (currentPage b) @ '','' @
     to_string (status b) @ '','' @ csvQuote (isbn b) @ [NL]"

definition exportCsv :: "bool \<Rightarrow> Storage \<Rightarrow> string option \<times> Storage" where
  \<comment> \<open>The first argument says whether the output file can be opened. The result is the
      content written, \<open>None\<close> when the function returns false.\<close>
  "exportCsv writable st =
     (if \<not> writable then (None, st)
      else
        (case list_books None st of
           (rows, st') \<Rightarrow> (Some (csvHeader @ [NL] @ concat (map csvRow rows)), st')))"

definition rowToBook :: "string list \<Rightarrow> Book" where
  \<comment> \<open>The Book that the body of the import loop fills from a row of at least 7 columns;
      the id stays at its default, and \<open>add\<close> does not read it.\<close>
  "rowToBook cols =
     (let total = max 0 (strToIntSafe (cols ! 3))
      in \<lparr>id_book = 0, title = cols ! 1, author = cols ! 2,
          totalPages = total,
          currentPage = clamp (strToIntSafe (cols ! 4)) 0 total,
          status = clamp (strToIntSafe (cols ! 5)) 0 2,
          isbn = cols ! 6\<rparr>)"

fun importLines :: "string list \<Rightarrow> Storage \<Rightarrow> Storage" where
  \<comment> \<open>The while loop of importCsv over the lines still to read. The result of \<open>add\<close> is
      dropped, as in the source.\<close>
  "importLines [] st = st"
| "importLines (line # rest) st =
     (let cols = csvParse line
      in if length cols < 7 then importLines rest st
         else importLines rest (snd (add (rowToBook cols) st)))"

definition importCsv :: "string option \<Rightarrow> Storage \<Rightarrow> bool \<times> Storage" where
  \<comment> \<open>The first argument is the content of the file, \<open>None\<close> when it cannot be opened.
      A first line without \<open>id,\<close> is read again as data (the stream is rewound).\<close>
  "importCsv file st =
     (case file of
        None \<Rightarrow> (False, st)
      | Some content \<Rightarrow>
          (case getlines content of
             [] \<Rightarrow> (False, st)
           | line # rest \<Rightarrow>
               (let dataLines = (if find_sub ''id,'' line then rest else line # rest)
                in (True, exec COMMIT (importLines dataLines (exec BEGIN_TRANSACTION st))))))"

definition ceiling_quotient :: "int \<Rightarrow> int \<Rightarrow> int" where
  \<comment> \<open>The specification's ceiling of \<open>a / b\<close> for a positive \<open>b\<close>, on unbounded integers.\<close>
  "ceiling_quotient a b = - ((- a) div b)"

subsection \<open>The specification's ISBN-13 check digit\<close>

definition keep_digits_X :: "string \<Rightarrow> string" where
  \<comment> \<open>The specification's cleaning: keep the digits and the letter X, folded to upper case.\<close>
  "keep_digits_X raw =
     map (\<lambda>c. if c = CHR ''x'' then CHR ''X'' else c)
       (filter (\<lambda>c. isdigit c \<or> c = CHR ''X'' \<or> c = CHR ''x'') raw)"

definition isbn_weighted_sum :: "string \<Rightarrow> int" where
  \<comment> \<open>Weight 1 at the even zero-based indices, weight 3 at the odd ones; a character
      counts as its code minus that of the digit 0.\<close>
  "isbn_weighted_sum core =
     (\<Sum>i<length core. (if even i then 1 else 3) * (int (of_char (core ! i)) - 48))"

definition isbn_check_digit :: "string \<Rightarrow> int" where
  "isbn_check_digit core = (10 - isbn_weighted_sum core mod 10) mod 10"

definition isbn_char :: "char \<Rightarrow> bool" where
  "isbn_char c = (isdigit c \<or> c = CHR ''X'')"

subsection \<open>Sample networks\<close>

text \<open>
  Three networks for the ISBN 9780306406157, with the parser given as a table from the
  bodies served to the documents they hold (the bodies are written here without their
  quotation marks).
\<close>

definition primary_body :: string where
  "primary_body = ''{title: Synthetic Fuels, by_statement: edited by R. Meyers}''"

definition odd_body :: string where
  "odd_body = ''{title: Synthetic Fuels, by_statement: 1984}''"

definition secondary_body :: string where
  "secondary_body =
     ''{items: [{volumeInfo: {title: Handbook of Synthetic Fuels, authors: [Meyers, Probstein]}}, '' @
     ''{volumeInfo: {title: Fuels, authors: [Smith]}}]}''"

definition sample_parse :: "string \<Rightarrow> json option" where
  "sample_parse body =
     (if body = primary_body
      then Some (JObject [(''title'', JString ''Synthetic Fuels''),
                          (''by_statement'', JString ''edited by R. Meyers'')])
      else if body = odd_body
      then Some (JObject [(''title'', JString ''Synthetic Fuels''), (''by_statement'', JNumber)])
      else if body = secondary_body
      then Some (JObject [(''items'', JArray
             [JObject [(''volumeInfo'',
                JObject [(''title'', JString ''Handbook of Synthetic Fuels''),
                         (''authors'', JArray [JString ''Meyers'', JString ''Probstein''])])],
              JObject [(''volumeInfo'',
                JObject [(''title'', JString ''Fuels''),
                         (''authors'', JArray [JString ''Smith''])])]])])
      else None)"

definition primary_world :: World where
  \<comment> \<open>Both sources know the book.\<close>
  "primary_world =
     \<lparr>httpGet = (\<lambda>url. if url = ''https://openlibrary.org/isbn/9780306406157.json''
                        then Some primary_body
                        else if url = ''https://www.googleapis.com/books/v1/volumes?q=isbn:9780306406157''
                        then Some secondary_body else None),
      json_parse = sample_parse,
      api_key = None,
      g_useGoogleBooks = True\<rparr>"

definition secondary_world :: World where
  \<comment> \<open>Only the second source answers; a key is configured.\<close>
  "secondary_world =
     \<lparr>httpGet = (\<lambda>url. if url = ''https://www.googleapis.com/books/v1/volumes?q=isbn:9780306406157&key=K1''
                        then Some secondary_body else None),
      json_parse = sample_parse,
      api_key = Some ''K1'',
      g_useGoogleBooks = True\<rparr>"

definition odd_world :: World where
  \<comment> \<open>The first source serves the title and a \<open>by_statement\<close> that is a number.\<close>
  "odd_world =
     \<lparr>httpGet = (\<lambda>url. if url = ''https://openlibrary.org/isbn/9780306406157.json''
                        then Some odd_body
                        else if url = ''https://www.googleapis.com/books/v1/volumes?q=isbn:9780306406157''
                        then Some secondary_body else None),
      json_parse = sample_parse,
      api_key = None,
      g_useGoogleBooks = True\<rparr>"

subsection \<open>Sample stores\<close>

definition empty_store :: Storage where
  "empty_store = \<lparr>books = [], seq = 0, settings = Map.empty, txn = None, faults = []\<rparr>"

definition frame :: "Book \<Rightarrow> int \<times> string \<times> string \<times> int \<times> string" where
  \<comment> \<open>The fields of a record that no status or progress update may touch.\<close>
  "frame b = (id_book b, title b, author b, totalPages b, isbn b)"

definition hobbit :: Book where
  "hobbit = \<lparr>id_book = 1, title = ''The Hobbit'', author = ''J.R.R. Tolkien'',
             totalPages = 310, currentPage = 120, status = 1, isbn = ''9780261102217''\<rparr>"

definition dune :: Book where
  "dune = \<lparr>id_book = 2, title = ''Dune'', author = ''Frank Herbert'',
           totalPages = 600, currentPage = 0, status = 0, isbn = []\<rparr>"

definition shelf :: Storage where
  "shelf = \<lparr>books = [hobbit, dune], seq = 2, settings = Map.empty, txn = None, faults = []\<rparr>"

subsection \<open>The specification's search\<close>

definition contains_ci :: "string \<Rightarrow> string \<Rightarrow> bool" where
  \<comment> \<open>The specification's match: \<open>q\<close> occurs in \<open>s\<close>, letters of ASCII compared without
      regard to case.\<close>
  "contains_ci q s = find_sub (map tolower q) (map tolower s)"

definition plain_query :: "string \<Rightarrow> bool" where
  \<comment> \<open>A query of ASCII that holds neither of LIKE's wildcards, nor a NUL byte.\<close>
  "plain_query q =
     list_all (\<lambda>c. c \<noteq> CHR ''%'' \<and> c \<noteq> CHR ''_'' \<and> c \<noteq> NUL \<and> (of_char c :: int) < 128) q"

subsection \<open>Bulk transfer: what the specification speaks of, and sample data\<close>

definition csvLine :: "Book \<Rightarrow> string" where
  \<comment> \<open>A row of the export without its newline.\<close>
  "csvLine b =
     to_string (id_book b) @ '','' @ csvQuote (title b) @ '','' @ csvQuote (author b) @ '','' @
     to_string (totalPages b) @ '','' @ to_string (currentPage b) @ '','' @
     to_string (status b) @ '','' @ csvQuote (isbn b)"

fun renumber :: "int \<Rightarrow> Book list \<Rightarrow> Book list" where
  \<comment> \<open>The rows as the table holds them after consecutive inserts from counter \<open>k\<close>.\<close>
  "renumber k [] = []"
| "renumber k (b # bs) = b\<lparr>id_book := k + 1\<rparr> # renumber (k + 1) bs"

definition bound_texts :: "Book \<Rightarrow> Book" where
  \<comment> \<open>The record with its three texts as \<open>sqlite3_bind_text\<close> reads them.\<close>
  "bound_texts b = b\<lparr>title := c_str (title b), author := c_str (author b), isbn := c_str (isbn b)\<rparr>"

definition dataLines :: "string \<Rightarrow> string list" where
  \<comment> \<open>The lines that the import loop reads: all of them, but the first when it holds \<open>id,\<close>.\<close>
  "dataLines content =
     (case getlines content of
        [] \<Rightarrow> []
      | line # rest \<Rightarrow> if find_sub ''id,'' line then rest else line # rest)"

definition validRows :: "string list \<Rightarrow> string list list" where
  \<comment> \<open>The parsed rows that the loop does not skip.\<close>
  "validRows ls = filter (\<lambda>cols. 7 \<le> length cols) (map csvParse ls)"


definition payload :: "Book \<Rightarrow> string \<times> string \<times> int \<times> int \<times> int \<times> string" where
  \<comment> \<open>Everything of a record but its id.\<close>
  "payload b = (title b, author b, totalPages b, currentPage b, status b, isbn b)"

definition exportable :: "Book \<Rightarrow> bool" where
  \<comment> \<open>A record within the ranges that the import enforces, whose texts hold no line feed
      (and no NUL byte, which the store never holds).\<close>
  "exportable b =
     (0 \<le> currentPage b \<and> currentPage b \<le> totalPages b \<and> totalPages b \<le> INT_MAX \<and>
      0 \<le> status b \<and> status b \<le> 2 \<and>
      list_all (\<lambda>c. c \<noteq> NL \<and> c \<noteq> NUL) (title b) \<and>
      list_all (\<lambda>c. c \<noteq> NL \<and> c \<noteq> NUL) (author b) \<and>
      list_all (\<lambda>c. c \<noteq> NL \<and> c \<noteq> NUL) (isbn b))"

definition sample_csv :: string where
  \<comment> \<open>A file of a header and three rows.\<close>
  "sample_csv =
     csvHeader @ [NL] @
     ''1,Dune,Frank Herbert,600,0,0,'' @ [NL] @
     ''2,Emma,Jane Austen,400,10,1,'' @ [NL] @
     ''3,Ulysses,James Joyce,700,700,2,'' @ [NL]"

definition quoted_shelf :: Storage where
  \<comment> \<open>A store whose first title holds a comma and quote characters.\<close>
  "quoted_shelf =
     \<lparr>books = [\<lparr>id_book = 4, title = ''Title: '' @ [DQUOTE] @ ''Big, Book'' @ [DQUOTE],
                author = ''A. N. Author'', totalPages = 250, currentPage = 100, status = 1,
                isbn = ''9780306406157''\<rparr>,
               \<lparr>id_book = 2, title = ''Dune'', author = ''Frank Herbert'', totalPages = 600,
                currentPage = 0, status = 0, isbn = []\<rparr>],
      seq = 4, settings = Map.empty, txn = None, faults = []\<rparr>"



definition unruly_shelf :: Storage where
  \<comment> \<open>A store with a record read beyond its last page, as updateProgress can leave it,
      one with a status outside the enumeration and one whose title holds a line feed,
      as \<open>add\<close> accepts them.\<close>
  "unruly_shelf =
     \<lparr>books = [\<lparr>id_book = 1, title = ''Dune'', author = ''Frank Herbert'', totalPages = 10,
                currentPage = 50, status = 1, isbn = []\<rparr>,
               \<lparr>id_book = 2, title = ''Emma'', author = ''Jane Austen'', totalPages = 400,
                currentPage = 10, status = 7, isbn = []\<rparr>,
               \<lparr>id_book = 3, title = ''Two'' @ [NL] @ ''Lines'', author = ''Anon'', totalPages = 90,
                currentPage = 9, status = 1, isbn = []\<rparr>],
      seq = 3, settings = Map.empty, txn = None, faults = []\<rparr>"

section \<open>Progress metrics\<close>

lemma wrap32_id: "INT_MIN \<le> x \<Longrightarrow> x \<le> INT_MAX \<Longrightarrow> wrap32 x = x"
  by (simp add: wrap32_def INT_MIN_def INT_MAX_def)

lemma sdiv_nonneg: "0 \<le> a \<Longrightarrow> 0 < b \<Longrightarrow> a sdiv b = a div (b::int)"
  by (simp add: signed_divide_int_def sgn_if)

lemma ceiling_quotient_eq:
  assumes b: "0 < b"
  shows "ceiling_quotient a b = (a + b - 1) div b"
proof -
  define q where "q = (- a) div b"
  define r where "r = (- a) mod b"
  have r: "0 \<le> r" "r < b" using b by (simp_all add: r_def)
  have "- a = q * b + r" by (simp add: q_def r_def)
  then have "a + b - 1 = (b - 1 - r) + (- q) * b" by (simp add: algebra_simps)
  then have "(a + b - 1) div b = ((b - 1 - r) + (- q) * b) div b" by (rule arg_cong)
  also have "\<dots> = (b - 1 - r) div b + (- q)" using b by (simp only: div_mult_self1)
  also have "(b - 1 - r) div b = 0" using r b by (simp add: div_pos_pos_trivial)
  finally show ?thesis by (simp add: q_def ceiling_quotient_def)
qed

lemma daysToFinish_unknown_iff:
  "daysToFinish b dailyRate = None \<longleftrightarrow> dailyRate \<le> 0 \<or> totalPages b \<le> currentPage b"
  by (simp add: daysToFinish_def Let_def)

lemma daysToFinish_in_range:
  assumes "0 < dailyRate" and "currentPage b < totalPages b"
    and "totalPages b - currentPage b + dailyRate \<le> INT_MAX"
  shows "daysToFinish b dailyRate = Some (ceiling_quotient (totalPages b - currentPage b) dailyRate)"
proof -
  let ?rem = "totalPages b - currentPage b"
  have rem: "wrap32 ?rem = ?rem"
    using assms by (intro wrap32_id) (simp_all add: INT_MIN_def INT_MAX_def)
  have s1: "wrap32 (?rem + dailyRate) = ?rem + dailyRate"
    using assms by (intro wrap32_id) (simp_all add: INT_MIN_def INT_MAX_def)
  have s2: "wrap32 (?rem + dailyRate - 1) = ?rem + dailyRate - 1"
    using assms by (intro wrap32_id) (simp_all add: INT_MIN_def INT_MAX_def)
  have "(?rem + dailyRate - 1) sdiv dailyRate = (?rem + dailyRate - 1) div dailyRate"
    using assms by (intro sdiv_nonneg) simp_all
  then show ?thesis
    using assms by (simp add: daysToFinish_def Let_def rem s1 s2 ceiling_quotient_eq)
qed

text \<open>
  Claim C7. For every record and every integer dailyRate, daysToFinish is unknown exactly
  when dailyRate \<open>\<le> 0\<close> or currentPage \<open>\<ge>\<close> totalPages, and otherwise it is the ceiling of
  (totalPages - currentPage) / dailyRate. The first half holds (\<open>daysToFinish_unknown_iff\<close>),
  and so does the second while \<open>remaining + dailyRate\<close> fits an int
  (\<open>daysToFinish_in_range\<close>). Beyond that the sum written under the comment "ceil division"
  leaves the 32-bit range: for a book of 2000000000 pages, none of them read, at 2000000000
  pages a day (both values are accepted by the prompts), the ceiling is 1 and the function
  does not return it.
\<close>

theorem daysToFinish_overflow:
  "daysToFinish \<lparr>id_book = 1, title = ''War and Peace'', author = ''Tolstoy'',
       totalPages = 2000000000, currentPage = 0, status = 0, isbn = []\<rparr> 2000000000 = Some 0
   \<and> ceiling_quotient (2000000000 - 0) 2000000000 = 1"
  by (simp add: daysToFinish_def wrap32_def signed_divide_int_def ceiling_quotient_def)

text \<open>
  Claim C8. The specification's example says that daysToFinish of a record with
  totalPages = 100 and currentPage = 40 at dailyRate = 15 is 5. The function returns 4,
  the ceiling of 60 / 15; it returns 5 one page earlier, when 61 pages remain.
\<close>

theorem daysToFinish_example:
  "daysToFinish \<lparr>id_book = 1, title = ''War and Peace'', author = ''Tolstoy'',
       totalPages = 100, currentPage = 40, status = 1, isbn = []\<rparr> 15 = Some 4
   \<and> daysToFinish \<lparr>id_book = 1, title = ''War and Peace'', author = ''Tolstoy'',
       totalPages = 100, currentPage = 39, status = 1, isbn = []\<rparr> 15 = Some 5"
  by (simp add: daysToFinish_def wrap32_def signed_divide_int_def)

theorem daysToFinish_example_not_5:
  "daysToFinish \<lparr>id_book = 1, title = ''War and Peace'', author = ''Tolstoy'',
       totalPages = 100, currentPage = 40, status = 1, isbn = []\<rparr> 15 \<noteq> Some 5"
  by (simp add: daysToFinish_def wrap32_def signed_divide_int_def)

section \<open>ISBN utilities\<close>

lemma onlyDigitsX_keep: "onlyDigitsX raw = keep_digits_X raw"
  by (induction raw) (simp_all add: keep_digits_X_def)

lemma isbn_sum_eq:
  "isbn_sum cs i acc =
     acc + (\<Sum>j<length cs. (if even (i + j) then 1 else 3) * char_minus_zero (cs ! j))"
proof (induction cs arbitrary: i acc)
  case Nil
  then show ?case by simp
next
  case (Cons c cs)
  show ?case
    by (simp add: Cons.IH sum.lessThan_Suc_shift even_iff_mod_2_eq_zero del: sum.lessThan_Suc)
qed

lemma isbn_char_onlyDigitsX: "list_all isbn_char (onlyDigitsX raw)"
  by (induction raw) (simp_all add: isbn_char_def)

lemma isbn_char_val:
  "isbn_char c \<Longrightarrow> char_minus_zero c = int (of_char c) - 48"
  "isbn_char c \<Longrightarrow> 48 \<le> (of_char c :: nat)"
  by (auto simp: isbn_char_def isdigit_def char_minus_zero_def)

lemma digit_char_numerals:
  "digit_char 0 = CHR ''0''" "digit_char 1 = CHR ''1''" "digit_char 2 = CHR ''2''"
  "digit_char 3 = CHR ''3''" "digit_char 4 = CHR ''4''" "digit_char 5 = CHR ''5''"
  "digit_char 6 = CHR ''6''" "digit_char 7 = CHR ''7''" "digit_char 8 = CHR ''8''"
  "digit_char 9 = CHR ''9''"
  by code_simp+

lemma digit_char_Suc0: "digit_char (Suc 0) = CHR ''1''"
  by code_simp

lemma smod_nonneg: "0 \<le> a \<Longrightarrow> 0 < b \<Longrightarrow> a smod b = a mod (b::int)"
  by (simp add: signed_modulo_int_def sgn_if)

lemma of_char_digit_char: "d < 10 \<Longrightarrow> of_char (digit_char d) = 48 + d"
  by (simp add: digit_char_def)

lemma to_string_digit: "0 \<le> n \<Longrightarrow> n < 10 \<Longrightarrow> to_string n = [digit_char (nat n)]"
  by (simp add: to_string_def digits_of.simps)

lemma weighted_sum_core:
  assumes "list_all isbn_char core"
  shows "isbn_sum core 0 0 = isbn_weighted_sum core" "0 \<le> isbn_weighted_sum core"
proof -
  have v: "\<And>j. j < length core \<Longrightarrow> char_minus_zero (core ! j) = int (of_char (core ! j)) - 48"
    "\<And>j. j < length core \<Longrightarrow> 48 \<le> (of_char (core ! j) :: nat)"
    using assms by (auto simp: list_all_length isbn_char_val)
  show "isbn_sum core 0 0 = isbn_weighted_sum core"
    by (simp add: isbn_sum_eq isbn_weighted_sum_def v)
  show "0 \<le> isbn_weighted_sum core"
    unfolding isbn_weighted_sum_def by (rule sum_nonneg) (use v in auto)
qed

lemma isbn10to13_spec:
  assumes "list_all isbn_char s"
  shows "isbn10to13 s = ''978'' @ take 9 s @ [digit_char (nat (isbn_check_digit (''978'' @ take 9 s)))]"
proof -
  let ?core = "''978'' @ take 9 s"
  have c: "list_all isbn_char ?core"
    using assms by (auto simp: list_all_iff isbn_char_def isdigit_def dest: in_set_takeD)
  note ws = weighted_sum_core [OF c]
  have m: "isbn_weighted_sum ?core smod 10 = isbn_weighted_sum ?core mod 10"
    using ws(2) by (simp add: smod_nonneg)
  have "0 \<le> 10 - isbn_weighted_sum ?core mod 10" 
    by (smt (verit) pos_mod_bound)
  then have m2: "(10 - isbn_weighted_sum ?core mod 10) smod 10 = isbn_check_digit ?core"
    by (simp add: smod_nonneg isbn_check_digit_def)
  have r: "0 \<le> isbn_check_digit ?core" "isbn_check_digit ?core < 10"
    by (simp_all add: isbn_check_digit_def)
  show ?thesis
    unfolding isbn10to13_def Let_def ws(1) m m2 using r by (simp add: to_string_digit)
qed

lemma check_digit_divisible: "(isbn_weighted_sum core + isbn_check_digit core) mod 10 = 0"
  unfolding isbn_check_digit_def by presburger

text \<open>
  Claim C2. For every raw string, normalizeIsbn keeps only the digits and the letter X
  (folded to upper case); a cleaned string of length 13 is returned as it is; one of length
  10 becomes 978, its first nine characters and the check digit \<open>(10 - sum mod 10) mod 10\<close>,
  where the sum weights the even zero-based indices by 1 and the odd ones by 3, so that the
  weighted sum and the check digit together are divisible by 10; any other length gives
  the empty string. And 0306406152 becomes 9780306406157.
\<close>

theorem normalizeIsbn_spec:
  "normalizeIsbn raw =
     (let s = keep_digits_X raw
      in if length s = 13 then s
         else if length s = 10
         then ''978'' @ take 9 s @ [digit_char (nat (isbn_check_digit (''978'' @ take 9 s)))]
         else [])
   \<and> (isbn_weighted_sum (''978'' @ take 9 (keep_digits_X raw)) +
        isbn_check_digit (''978'' @ take 9 (keep_digits_X raw))) mod 10 = 0
   \<and> normalizeIsbn ''0306406152'' = ''9780306406157''"
proof (intro conjI)
  show "normalizeIsbn raw =
     (let s = keep_digits_X raw
      in if length s = 13 then s
         else if length s = 10
         then ''978'' @ take 9 s @ [digit_char (nat (isbn_check_digit (''978'' @ take 9 s)))]
         else [])"
    using isbn10to13_spec [OF isbn_char_onlyDigitsX, of raw]
    by (simp add: normalizeIsbn_def Let_def isIsbn13_def isIsbn10_def onlyDigitsX_keep)
  show "(isbn_weighted_sum (''978'' @ take 9 (keep_digits_X raw)) +
        isbn_check_digit (''978'' @ take 9 (keep_digits_X raw))) mod 10 = 0"
    by (rule check_digit_divisible)
  show "normalizeIsbn ''0306406152'' = ''9780306406157''"
    by (simp add: normalizeIsbn_def isIsbn13_def isIsbn10_def isbn10to13_def isdigit_def
        char_minus_zero_def signed_modulo_int_def to_string_def digits_of.simps digit_char_numerals)
qed

lemma onlyDigitsX_fixed: "list_all isbn_char t \<Longrightarrow> onlyDigitsX t = t"
  by (induction t) (auto simp: isbn_char_def isdigit_def)

lemma isbn_char_digit_char: "d < 10 \<Longrightarrow> isbn_char (digit_char d)"
  by (simp add: isbn_char_def isdigit_def digit_char_def)

lemma normalizeIsbn_shape:
  "normalizeIsbn raw = [] \<or>
   (length (normalizeIsbn raw) = 13 \<and> list_all isbn_char (normalizeIsbn raw))"
proof -
  let ?s = "onlyDigitsX raw"
  have a: "list_all isbn_char ?s" by (rule isbn_char_onlyDigitsX)
  have r: "nat (isbn_check_digit (''978'' @ take 9 ?s)) < 10"
    by (simp add: isbn_check_digit_def)
  have t: "list_all isbn_char (take 9 ?s)"
    using a by (auto simp: list_all_iff dest: in_set_takeD)
  have p: "list_all isbn_char ''978''"
    by (simp add: isbn_char_def isdigit_def)
  show ?thesis
    using a t p isbn_char_digit_char [OF r]
    by (simp add: normalizeIsbn_def Let_def isIsbn13_def isIsbn10_def isbn10to13_spec [OF a])
qed

lemma normalizeIsbn_idem: "normalizeIsbn (normalizeIsbn raw) = normalizeIsbn raw"
proof -
  have e: "normalizeIsbn [] = []"
    by (simp add: normalizeIsbn_def isIsbn13_def isIsbn10_def)
  have "\<And>t. length t = 13 \<Longrightarrow> list_all isbn_char t \<Longrightarrow> normalizeIsbn t = t"
    by (simp add: normalizeIsbn_def isIsbn13_def onlyDigitsX_fixed)
  then show ?thesis
    using normalizeIsbn_shape [of raw] e by auto
qed

section \<open>The metadata lookup chain\<close>

lemma urls_differ: "googleBooksUrl w a \<noteq> openLibraryUrl b"
  by (simp add: googleBooksUrl_def openLibraryUrl_def)

lemma lookupIsbn_invalid: "normalizeIsbn raw = [] \<Longrightarrow> lookupIsbn w raw = (None, [])"
  by (simp add: lookupIsbn_def)

lemma get_string_Some: "get_string v = Some s \<longleftrightarrow> v = JString s"
  by (cases v) auto

lemma openLibraryFields_reads:
  assumes "map_of kvs ''title'' = Some (JString t)"
    and "map_of kvs ''by_statement'' = Some (JString a) \<or> map_of kvs ''by_statement'' = None \<and> a = []"
  shows "openLibraryFields (JObject kvs) = Some \<lparr>title_r = t, author_r = a\<rparr>"
  using assms by (auto simp: openLibraryFields_def)

lemma openLibraryFields_only:
  assumes "openLibraryFields j = Some r" and "title_r r \<noteq> []"
  shows "\<exists>kvs. j = JObject kvs \<and> map_of kvs ''title'' = Some (JString (title_r r))
           \<and> (map_of kvs ''by_statement'' = Some (JString (author_r r))
              \<or> map_of kvs ''by_statement'' = None \<and> author_r r = [])"
proof (cases j)
  case (JObject kvs)
  show ?thesis
    using assms unfolding JObject
    by (auto simp: openLibraryFields_def get_string_Some split: option.splits if_splits)
qed (use assms in \<open>auto simp: openLibraryFields_def\<close>)

lemma googleBooksFields_reads:
  assumes "map_of kvs ''items'' = Some (JArray (JObject item # later))"
    and "map_of item ''volumeInfo'' = Some (JObject vi)"
    and "map_of vi ''title'' = Some (JString t) \<or> map_of vi ''title'' = None \<and> t = []"
    and "map_of vi ''authors'' = Some (JArray (JString a # others))
         \<or> a = [] \<and> (\<forall>x xs. map_of vi ''authors'' \<noteq> Some (JArray (x # xs)))"
  shows "googleBooksFields (JObject kvs) = Some \<lparr>title_r = t, author_r = a\<rparr>"
proof -
  have au: "(case (if contains (JObject vi) ''authors'' then at_key (JObject vi) ''authors'' else None) of
               Some (JArray (x # xs)) \<Rightarrow>
                 (case get_string x of None \<Rightarrow> None
                  | Some au \<Rightarrow> Some \<lparr>title_r = t, author_r = au\<rparr>)
             | _ \<Rightarrow> Some \<lparr>title_r = t, author_r = []\<rparr>) = Some \<lparr>title_r = t, author_r = a\<rparr>"
    using assms(4) by (auto split: option.splits json.splits list.splits)
  have ti: "(if contains (JObject vi) ''title'' then Option.bind (at_key (JObject vi) ''title'') get_string
             else Some []) = Some t"
    using assms(3) by auto
  show ?thesis
    unfolding googleBooksFields_def using assms(1,2) au ti by simp
qed

lemma googleBooksFields_only:
  assumes "googleBooksFields j = Some r" and "title_r r \<noteq> [] \<or> author_r r \<noteq> []"
  shows "\<exists>kvs item later vi. j = JObject kvs
           \<and> map_of kvs ''items'' = Some (JArray (JObject item # later))
           \<and> map_of item ''volumeInfo'' = Some (JObject vi)
           \<and> (map_of vi ''title'' = Some (JString (title_r r))
              \<or> map_of vi ''title'' = None \<and> title_r r = [])
           \<and> ((\<exists>others. map_of vi ''authors'' = Some (JArray (JString (author_r r) # others)))
              \<or> author_r r = [] \<and> (\<forall>x xs. map_of vi ''authors'' \<noteq> Some (JArray (x # xs))))"
proof (cases j)
  case (JObject kvs)
  from assms(1) obtain it later where items: "map_of kvs ''items'' = Some (JArray (it # later))"
    unfolding JObject googleBooksFields_def
    by (auto split: option.splits json.splits list.splits if_splits)
  from assms(1) obtain vj where vj: "at_key it ''volumeInfo'' = Some vj"
    unfolding JObject googleBooksFields_def using items
    by (auto split: option.splits)
  have rest: "(case (if contains vj ''title'' then Option.bind (at_key vj ''title'') get_string
                      else Some []) of
                  None \<Rightarrow> None
                | Some t \<Rightarrow>
                    (case (if contains vj ''authors'' then at_key vj ''authors'' else None) of
                       Some (JArray (a # as)) \<Rightarrow>
                         (case get_string a of
                            None \<Rightarrow> None
                          | Some au \<Rightarrow> Some \<lparr>title_r = t, author_r = au\<rparr>)
                     | _ \<Rightarrow> Some \<lparr>title_r = t, author_r = []\<rparr>)) = Some r"
    using assms(1) unfolding JObject googleBooksFields_def by (simp add: items vj)
  obtain vi where vi: "vj = JObject vi"
    using rest assms(2) by (cases vj) auto
  obtain item where item: "it = JObject item" "map_of item ''volumeInfo'' = Some (JObject vi)"
    using vj vi by (cases it) (auto split: option.splits)
  have fields: "(map_of vi ''title'' = Some (JString (title_r r))
              \<or> map_of vi ''title'' = None \<and> title_r r = [])
           \<and> ((\<exists>others. map_of vi ''authors'' = Some (JArray (JString (author_r r) # others)))
              \<or> author_r r = [] \<and> (\<forall>x xs. map_of vi ''authors'' \<noteq> Some (JArray (x # xs))))"
    using rest unfolding vi
    by (auto simp: get_string_Some split: option.splits json.splits list.splits if_splits)
  show ?thesis
    using items item fields JObject by blast
qed (use assms in \<open>auto simp: googleBooksFields_def\<close>)

lemma queryOpenLibrary_reads:
  assumes "httpGet w (openLibraryUrl isbn13) = Some body" and "json_parse w body = Some (JObject kvs)"
    and "map_of kvs ''title'' = Some (JString t)"
    and "map_of kvs ''by_statement'' = Some (JString a) \<or> map_of kvs ''by_statement'' = None \<and> a = []"
  shows "queryOpenLibrary w isbn13 = Some \<lparr>title_r = t, author_r = a\<rparr>"
  unfolding queryOpenLibrary_def using assms(1,2) openLibraryFields_reads [OF assms(3,4)] by simp

lemma queryOpenLibrary_only:
  assumes "queryOpenLibrary w isbn13 = Some r" and "title_r r \<noteq> []"
  shows "\<exists>body kvs. httpGet w (openLibraryUrl isbn13) = Some body
           \<and> json_parse w body = Some (JObject kvs)
           \<and> map_of kvs ''title'' = Some (JString (title_r r))
           \<and> (map_of kvs ''by_statement'' = Some (JString (author_r r))
              \<or> map_of kvs ''by_statement'' = None \<and> author_r r = [])"
proof -
  from assms(1) obtain body j where b: "httpGet w (openLibraryUrl isbn13) = Some body"
    "json_parse w body = Some j" "openLibraryFields j = Some r"
    unfolding queryOpenLibrary_def by (auto split: option.splits)
  from openLibraryFields_only [OF b(3) assms(2)] b(1,2) show ?thesis by blast
qed

lemma queryGoogleBooks_reads:
  assumes "httpGet w (googleBooksUrl w isbn13) = Some body" and "json_parse w body = Some (JObject kvs)"
    and "map_of kvs ''items'' = Some (JArray (JObject item # later))"
    and "map_of item ''volumeInfo'' = Some (JObject vi)"
    and "map_of vi ''title'' = Some (JString t) \<or> map_of vi ''title'' = None \<and> t = []"
    and "map_of vi ''authors'' = Some (JArray (JString a # others))
         \<or> a = [] \<and> (\<forall>x xs. map_of vi ''authors'' \<noteq> Some (JArray (x # xs)))"
  shows "queryGoogleBooks w isbn13 = Some \<lparr>title_r = t, author_r = a\<rparr>"
  unfolding queryGoogleBooks_def
  using assms(1,2) googleBooksFields_reads [OF assms(3,4,5,6)] by simp

lemma queryGoogleBooks_only:
  assumes "queryGoogleBooks w isbn13 = Some r" and "title_r r \<noteq> [] \<or> author_r r \<noteq> []"
  shows "\<exists>body kvs item later vi. httpGet w (googleBooksUrl w isbn13) = Some body
           \<and> json_parse w body = Some (JObject kvs)
           \<and> map_of kvs ''items'' = Some (JArray (JObject item # later))
           \<and> map_of item ''volumeInfo'' = Some (JObject vi)
           \<and> (map_of vi ''title'' = Some (JString (title_r r))
              \<or> map_of vi ''title'' = None \<and> title_r r = [])
           \<and> ((\<exists>others. map_of vi ''authors'' = Some (JArray (JString (author_r r) # others)))
              \<or> author_r r = [] \<and> (\<forall>x xs. map_of vi ''authors'' \<noteq> Some (JArray (x # xs))))"
proof -
  from assms(1) obtain body j where b: "httpGet w (googleBooksUrl w isbn13) = Some body"
    "json_parse w body = Some j" "googleBooksFields j = Some r"
    unfolding queryGoogleBooks_def by (auto split: option.splits)
  from googleBooksFields_only [OF b(3) assms(2)] b(1,2) show ?thesis by blast
qed

lemma lookupIsbn_cases:
  assumes "normalizeIsbn raw = isbn13" and "isbn13 \<noteq> []"
  shows "(\<exists>r. queryOpenLibrary w isbn13 = Some r \<and> title_r r \<noteq> []
              \<and> lookupIsbn w raw = (Some r, [openLibraryUrl isbn13]))
       \<or> (\<not> (\<exists>r. queryOpenLibrary w isbn13 = Some r \<and> title_r r \<noteq> []) \<and> \<not> g_useGoogleBooks w
              \<and> lookupIsbn w raw = (None, [openLibraryUrl isbn13]))
       \<or> (\<not> (\<exists>r. queryOpenLibrary w isbn13 = Some r \<and> title_r r \<noteq> []) \<and> g_useGoogleBooks w
              \<and> (\<exists>r. queryGoogleBooks w isbn13 = Some r \<and> (title_r r \<noteq> [] \<or> author_r r \<noteq> [])
                     \<and> lookupIsbn w raw = (Some r, [openLibraryUrl isbn13, googleBooksUrl w isbn13])))
       \<or> (\<not> (\<exists>r. queryOpenLibrary w isbn13 = Some r \<and> title_r r \<noteq> []) \<and> g_useGoogleBooks w
              \<and> \<not> (\<exists>r. queryGoogleBooks w isbn13 = Some r \<and> (title_r r \<noteq> [] \<or> author_r r \<noteq> []))
              \<and> lookupIsbn w raw = (None, [openLibraryUrl isbn13, googleBooksUrl w isbn13]))"
  using assms
  by (cases "queryOpenLibrary w isbn13"; cases "queryGoogleBooks w isbn13")
     (auto simp: lookupIsbn_def Let_def)

text \<open>
  Claim C6, as the code has it. For every normalized ISBN, lookup requests the primary
  source first. When the primary's response is a JSON object whose \<open>title\<close> is a non-empty
  string and whose \<open>by_statement\<close>, if present, is a string, the result is that title with
  that by_statement as author (empty when absent), and the secondary source is not queried.
  Otherwise the secondary source is queried, and only when the run-scoped flag is set. Of
  its response, the first element of \<open>items\<close> is read: the \<open>title\<close> of its \<open>volumeInfo\<close> (empty
  when absent) and the first of its \<open>authors\<close> (empty when there is none); the two are
  returned when either is non-empty. Every result comes about in one of these two ways, so
  a failed request, a body that does not parse and a field of another type than the one
  read all count as no answer, and the lookup is not-found when neither source gives one.
\<close>

theorem lookupIsbn_chain:
  assumes "isbn13 = normalizeIsbn raw" and "isbn13 \<noteq> []"
  shows "normalizeIsbn isbn13 = isbn13
    \<and> (snd (lookupIsbn w raw) = [openLibraryUrl isbn13]
         \<and> (g_useGoogleBooks w \<longrightarrow> fst (lookupIsbn w raw) \<noteq> None)
       \<or> g_useGoogleBooks w
         \<and> snd (lookupIsbn w raw) = [openLibraryUrl isbn13, googleBooksUrl w isbn13])
    \<and> (httpGet w (openLibraryUrl isbn13) = Some body \<and> json_parse w body = Some (JObject kvs)
         \<and> map_of kvs ''title'' = Some (JString t) \<and> t \<noteq> []
         \<and> (map_of kvs ''by_statement'' = Some (JString a)
            \<or> map_of kvs ''by_statement'' = None \<and> a = [])
       \<longrightarrow> lookupIsbn w raw = (Some \<lparr>title_r = t, author_r = a\<rparr>, [openLibraryUrl isbn13]))
    \<and> (g_useGoogleBooks w
         \<and> httpGet w (googleBooksUrl w isbn13) = Some body2
         \<and> json_parse w body2 = Some (JObject kvs2)
         \<and> map_of kvs2 ''items'' = Some (JArray (JObject item # later))
         \<and> map_of item ''volumeInfo'' = Some (JObject vi)
         \<and> (map_of vi ''title'' = Some (JString t2) \<or> map_of vi ''title'' = None \<and> t2 = [])
         \<and> (map_of vi ''authors'' = Some (JArray (JString a2 # others))
            \<or> a2 = [] \<and> (\<forall>x xs. map_of vi ''authors'' \<noteq> Some (JArray (x # xs))))
         \<and> (t2 \<noteq> [] \<or> a2 \<noteq> [])
       \<longrightarrow> lookupIsbn w raw
             = (Some \<lparr>title_r = t2, author_r = a2\<rparr>,
                [openLibraryUrl isbn13, googleBooksUrl w isbn13])
           \<or> (\<exists>r. lookupIsbn w raw = (Some r, [openLibraryUrl isbn13])))
    \<and> (fst (lookupIsbn w raw) = Some r
       \<longrightarrow> snd (lookupIsbn w raw) = [openLibraryUrl isbn13] \<and> title_r r \<noteq> []
           \<and> (\<exists>body kvs. httpGet w (openLibraryUrl isbn13) = Some body
                 \<and> json_parse w body = Some (JObject kvs)
                 \<and> map_of kvs ''title'' = Some (JString (title_r r))
                 \<and> (map_of kvs ''by_statement'' = Some (JString (author_r r))
                    \<or> map_of kvs ''by_statement'' = None \<and> author_r r = []))
         \<or> snd (lookupIsbn w raw) = [openLibraryUrl isbn13, googleBooksUrl w isbn13]
           \<and> g_useGoogleBooks w \<and> (title_r r \<noteq> [] \<or> author_r r \<noteq> [])
           \<and> (\<exists>body kvs item later vi. httpGet w (googleBooksUrl w isbn13) = Some body
                 \<and> json_parse w body = Some (JObject kvs)
                 \<and> map_of kvs ''items'' = Some (JArray (JObject item # later))
                 \<and> map_of item ''volumeInfo'' = Some (JObject vi)
                 \<and> (map_of vi ''title'' = Some (JString (title_r r))
                    \<or> map_of vi ''title'' = None \<and> title_r r = [])
                 \<and> ((\<exists>others. map_of vi ''authors'' = Some (JArray (JString (author_r r) # others)))
                    \<or> author_r r = []
                      \<and> (\<forall>x xs. map_of vi ''authors'' \<noteq> Some (JArray (x # xs))))))"
proof -
  let ?ol = "openLibraryUrl isbn13" and ?gb = "googleBooksUrl w isbn13"
  have n: "normalizeIsbn raw = isbn13" using assms(1) by simp
  note c = lookupIsbn_cases [OF n assms(2), of w]
  have c1: "normalizeIsbn isbn13 = isbn13"
    using assms(1) by (simp add: normalizeIsbn_idem)
  have c2: "snd (lookupIsbn w raw) = [?ol] \<and> (g_useGoogleBooks w \<longrightarrow> fst (lookupIsbn w raw) \<noteq> None)
       \<or> g_useGoogleBooks w \<and> snd (lookupIsbn w raw) = [?ol, ?gb]"
    using c by auto
  have c3: "lookupIsbn w raw = (Some \<lparr>title_r = t, author_r = a\<rparr>, [?ol])"
    if "httpGet w ?ol = Some body" "json_parse w body = Some (JObject kvs)"
      "map_of kvs ''title'' = Some (JString t)" "t \<noteq> []"
      "map_of kvs ''by_statement'' = Some (JString a) \<or> map_of kvs ''by_statement'' = None \<and> a = []"
  proof -
    have "queryOpenLibrary w isbn13 = Some \<lparr>title_r = t, author_r = a\<rparr>"
      by (rule queryOpenLibrary_reads [OF that(1,2,3,5)])
    then show ?thesis using c that(4) by auto
  qed
  have c4: "lookupIsbn w raw = (Some \<lparr>title_r = t2, author_r = a2\<rparr>, [?ol, ?gb])
           \<or> (\<exists>r. lookupIsbn w raw = (Some r, [?ol]))"
    if "g_useGoogleBooks w" "httpGet w ?gb = Some body2" "json_parse w body2 = Some (JObject kvs2)"
      "map_of kvs2 ''items'' = Some (JArray (JObject item # later))"
      "map_of item ''volumeInfo'' = Some (JObject vi)"
      "map_of vi ''title'' = Some (JString t2) \<or> map_of vi ''title'' = None \<and> t2 = []"
      "map_of vi ''authors'' = Some (JArray (JString a2 # others))
         \<or> a2 = [] \<and> (\<forall>x xs. map_of vi ''authors'' \<noteq> Some (JArray (x # xs)))"
      "t2 \<noteq> [] \<or> a2 \<noteq> []"
  proof -
    have "queryGoogleBooks w isbn13 = Some \<lparr>title_r = t2, author_r = a2\<rparr>"
      by (rule queryGoogleBooks_reads [OF that(2,3,4,5,6,7)])
    then show ?thesis using c that(1,8) by auto
  qed
  have c5: "snd (lookupIsbn w raw) = [?ol] \<and> title_r r \<noteq> []
           \<and> (\<exists>body kvs. httpGet w ?ol = Some body
                 \<and> json_parse w body = Some (JObject kvs)
                 \<and> map_of kvs ''title'' = Some (JString (title_r r))
                 \<and> (map_of kvs ''by_statement'' = Some (JString (author_r r))
                    \<or> map_of kvs ''by_statement'' = None \<and> author_r r = []))
         \<or> snd (lookupIsbn w raw) = [?ol, ?gb]
           \<and> g_useGoogleBooks w \<and> (title_r r \<noteq> [] \<or> author_r r \<noteq> [])
           \<and> (\<exists>body kvs item later vi. httpGet w ?gb = Some body
                 \<and> json_parse w body = Some (JObject kvs)
                 \<and> map_of kvs ''items'' = Some (JArray (JObject item # later))
                 \<and> map_of item ''volumeInfo'' = Some (JObject vi)
                 \<and> (map_of vi ''title'' = Some (JString (title_r r))
                    \<or> map_of vi ''title'' = None \<and> title_r r = [])
                 \<and> ((\<exists>others. map_of vi ''authors'' = Some (JArray (JString (author_r r) # others)))
                    \<or> author_r r = []
                      \<and> (\<forall>x xs. map_of vi ''authors'' \<noteq> Some (JArray (x # xs)))))"
    if f: "fst (lookupIsbn w raw) = Some r"
  proof -
    from c f consider
        (first) "queryOpenLibrary w isbn13 = Some r" "title_r r \<noteq> []"
          "lookupIsbn w raw = (Some r, [?ol])"
      | (second) "g_useGoogleBooks w" "queryGoogleBooks w isbn13 = Some r"
          "title_r r \<noteq> [] \<or> author_r r \<noteq> []" "lookupIsbn w raw = (Some r, [?ol, ?gb])"
      by auto
    then show ?thesis
    proof cases
      case first
      from queryOpenLibrary_only [OF first(1,2)] first(2,3) show ?thesis by simp
    next
      case second
      from queryGoogleBooks_only [OF second(2,3)] second(1,3,4) show ?thesis by simp
    qed
  qed
  show ?thesis
    using c1 c2 c3 c4 c5 by (intro conjI impI) blast+
qed

theorem lookupIsbn_chain_witness:
  "normalizeIsbn ''0306406152'' = ''9780306406157''
   \<and> lookupIsbn primary_world ''0306406152''
       = (Some \<lparr>title_r = ''Synthetic Fuels'', author_r = ''edited by R. Meyers''\<rparr>,
          [''https://openlibrary.org/isbn/9780306406157.json''])
   \<and> lookupIsbn secondary_world ''0306406152''
       = (Some \<lparr>title_r = ''Handbook of Synthetic Fuels'', author_r = ''Meyers''\<rparr>,
          [''https://openlibrary.org/isbn/9780306406157.json'',
           ''https://www.googleapis.com/books/v1/volumes?q=isbn:9780306406157&key=K1''])
   \<and> (\<exists>body kvs.
         httpGet primary_world ''https://openlibrary.org/isbn/9780306406157.json'' = Some body
         \<and> json_parse primary_world body = Some (JObject kvs)
         \<and> map_of kvs ''title'' = Some (JString ''Synthetic Fuels''))"
proof -
  have h1: "''9780306406157'' = normalizeIsbn ''0306406152''"
    by (simp add: normalizeIsbn_def isIsbn13_def isIsbn10_def isbn10to13_def isdigit_def
        char_minus_zero_def signed_modulo_int_def to_string_def digits_of.simps digit_char_numerals)
  have h2: "''9780306406157'' \<noteq> []" by simp
  have ol: "openLibraryUrl ''9780306406157'' = ''https://openlibrary.org/isbn/9780306406157.json''"
    by (simp add: openLibraryUrl_def)
  have gb: "googleBooksUrl secondary_world ''9780306406157''
             = ''https://www.googleapis.com/books/v1/volumes?q=isbn:9780306406157&key=K1''"
    by (simp add: googleBooksUrl_def secondary_world_def)
  have p1: "httpGet primary_world ''https://openlibrary.org/isbn/9780306406157.json''
             = Some primary_body"
    by (simp add: primary_world_def)
  have p2: "json_parse primary_world primary_body
             = Some (JObject [(''title'', JString ''Synthetic Fuels''),
                              (''by_statement'', JString ''edited by R. Meyers'')])"
    by (simp add: primary_world_def sample_parse_def)
  from lookupIsbn_chain [OF h1 h2, where w = primary_world and body = primary_body
      and kvs = "[(''title'', JString ''Synthetic Fuels''),
                  (''by_statement'', JString ''edited by R. Meyers'')]"
      and t = "''Synthetic Fuels''" and a = "''edited by R. Meyers''"]
  have a: "lookupIsbn primary_world ''0306406152''
       = (Some \<lparr>title_r = ''Synthetic Fuels'', author_r = ''edited by R. Meyers''\<rparr>,
          [''https://openlibrary.org/isbn/9780306406157.json''])"
    by (simp add: p1 p2 ol)
  have s0: "httpGet secondary_world ''https://openlibrary.org/isbn/9780306406157.json'' = None"
    by (simp add: secondary_world_def)
  have s1: "httpGet secondary_world
              ''https://www.googleapis.com/books/v1/volumes?q=isbn:9780306406157&key=K1''
             = Some secondary_body"
    by (simp add: secondary_world_def)
  have s2: "json_parse secondary_world secondary_body
             = Some (JObject [(''items'', JArray
                 [JObject [(''volumeInfo'',
                    JObject [(''title'', JString ''Handbook of Synthetic Fuels''),
                             (''authors'', JArray [JString ''Meyers'', JString ''Probstein''])])],
                  JObject [(''volumeInfo'',
                    JObject [(''title'', JString ''Fuels''),
                             (''authors'', JArray [JString ''Smith''])])]])])"
    by (simp add: secondary_world_def sample_parse_def primary_body_def odd_body_def
        secondary_body_def)
  have s3: "g_useGoogleBooks secondary_world" by (simp add: secondary_world_def)
  have no: "lookupIsbn secondary_world ''0306406152''
              \<noteq> (Some r, [openLibraryUrl ''9780306406157''])" for r
  proof
    assume e: "lookupIsbn secondary_world ''0306406152'' = (Some r, [openLibraryUrl ''9780306406157''])"
    from lookupIsbn_chain [OF h1 h2, where w = secondary_world and r = r]
    show False by (simp add: e s0 ol gb)
  qed
  from lookupIsbn_chain [OF h1 h2, where w = secondary_world and ?body2.0 = secondary_body
      and ?kvs2.0 = "[(''items'', JArray
                 [JObject [(''volumeInfo'',
                    JObject [(''title'', JString ''Handbook of Synthetic Fuels''),
                             (''authors'', JArray [JString ''Meyers'', JString ''Probstein''])])],
                  JObject [(''volumeInfo'',
                    JObject [(''title'', JString ''Fuels''),
                             (''authors'', JArray [JString ''Smith''])])]])]"
      and item = "[(''volumeInfo'',
                    JObject [(''title'', JString ''Handbook of Synthetic Fuels''),
                             (''authors'', JArray [JString ''Meyers'', JString ''Probstein''])])]"
      and later = "[JObject [(''volumeInfo'',
                    JObject [(''title'', JString ''Fuels''),
                             (''authors'', JArray [JString ''Smith''])])]]"
      and vi = "[(''title'', JString ''Handbook of Synthetic Fuels''),
                 (''authors'', JArray [JString ''Meyers'', JString ''Probstein''])]"
      and ?t2.0 = "''Handbook of Synthetic Fuels''" and ?a2.0 = "''Meyers''"
      and others = "[JString ''Probstein'']"]
  have b: "lookupIsbn secondary_world ''0306406152''
       = (Some \<lparr>title_r = ''Handbook of Synthetic Fuels'', author_r = ''Meyers''\<rparr>,
          [''https://openlibrary.org/isbn/9780306406157.json'',
           ''https://www.googleapis.com/books/v1/volumes?q=isbn:9780306406157&key=K1''])"
    using no by (simp add: s1 s2 s3 ol gb)
  have gbp: "googleBooksUrl primary_world ''9780306406157''
             = ''https://www.googleapis.com/books/v1/volumes?q=isbn:9780306406157''"
    by (simp add: googleBooksUrl_def primary_world_def)
  have c: "\<exists>body kvs.
         httpGet primary_world ''https://openlibrary.org/isbn/9780306406157.json'' = Some body
         \<and> json_parse primary_world body = Some (JObject kvs)
         \<and> map_of kvs ''title'' = Some (JString ''Synthetic Fuels'')"
    using lookupIsbn_chain [OF h1 h2, where w = primary_world
        and r = "\<lparr>title_r = ''Synthetic Fuels'', author_r = ''edited by R. Meyers''\<rparr>"]
    by (simp add: a ol gbp) blast
  show ?thesis using h1 a b c by simp
qed


text \<open>
  The claim as stated gives the primary's result whenever the primary yields a non-empty
  title. A primary response that holds the title and a \<open>by_statement\<close> that is not a string
  is passed over: the secondary source is queried and its first result returned, and with
  the flag unset the lookup is not-found.
\<close>

theorem lookupIsbn_title_passed_over:
  "httpGet odd_world (openLibraryUrl ''9780306406157'') = Some odd_body
   \<and> json_parse odd_world odd_body
       = Some (JObject [(''title'', JString ''Synthetic Fuels''), (''by_statement'', JNumber)])
   \<and> lookupIsbn odd_world ''9780306406157''
       = (Some \<lparr>title_r = ''Handbook of Synthetic Fuels'', author_r = ''Meyers''\<rparr>,
          [''https://openlibrary.org/isbn/9780306406157.json'',
           ''https://www.googleapis.com/books/v1/volumes?q=isbn:9780306406157''])
   \<and> lookupIsbn (odd_world\<lparr>g_useGoogleBooks := False\<rparr>) ''9780306406157''
       = (None, [''https://openlibrary.org/isbn/9780306406157.json''])"
  by code_simp

section \<open>Decimal text: printing and reading an int\<close>

lemma isdigit_digit_char: "d < 10 \<Longrightarrow> isdigit (digit_char d)"
  by (simp add: isdigit_def digit_char_def)

lemma digits_of_isdigit: "list_all isdigit (digits_of n)"
proof (induction n rule: digits_of.induct)
  case (1 n)
  show ?case
  proof (cases "n < 10")
    case True
    then show ?thesis by (subst digits_of.simps) (simp add: isdigit_digit_char)
  next
    case False
    then show ?thesis using 1 by (subst digits_of.simps) (simp add: isdigit_digit_char)
  qed
qed

lemma digits_of_nonempty: "digits_of n \<noteq> []"
  by (subst digits_of.simps) simp

lemma decimal_snoc: "decimal (ds @ [c]) = 10 * decimal ds + (int (of_char c) - 48)"
  by (simp add: decimal_def)

lemma decimal_digits_of: "decimal (digits_of n) = int n"
proof (induction n rule: digits_of.induct)
  case (1 n)
  show ?case
  proof (cases "n < 10")
    case True
    then show ?thesis
      by (subst digits_of.simps) (simp add: decimal_def of_char_digit_char)
  next
    case False
    then have "decimal (digits_of (n div 10)) = int (n div 10)" using 1 by simp
    moreover have "10 * int (n div 10) + int (n mod 10) = int n"
      by presburger
    ultimately show ?thesis using False
      by (subst digits_of.simps) (simp add: decimal_snoc of_char_digit_char)
  qed
qed

lemma isdigit_not_special:
  assumes "isdigit c"
  shows "\<not> isspace c" "c \<noteq> CHR ''-''" "c \<noteq> CHR ''+''" "c \<noteq> NUL" "c \<noteq> NL" "c \<noteq> COMMA"
    "c \<noteq> DQUOTE"
  using assms by (auto simp: isdigit_def isspace_def)

lemma takeWhile_digits:
  assumes "list_all isdigit ds" and "rest = [] \<or> \<not> isdigit (hd rest)"
  shows "takeWhile isdigit (ds @ rest) = ds"
proof -
  have "takeWhile isdigit rest = []" using assms(2) by (cases rest) auto
  then show ?thesis using assms(1) by (simp add: takeWhile_append2 list_all_iff)
qed

lemma stoi_to_string:
  assumes "INT_MIN \<le> n" and "n \<le> INT_MAX" and "rest = [] \<or> \<not> isdigit (hd rest)"
  shows "stoi (to_string n @ rest) = Some n"
proof (cases "n < 0")
  case True
  let ?ds = "digits_of (nat (- n))"
  have tw: "takeWhile isdigit (?ds @ rest) = ?ds"
    using digits_of_isdigit assms(3) by (rule takeWhile_digits)
  have sp: "\<not> isspace CHR ''-''" by (simp add: isspace_def)
  have "decimal ?ds = - n" using True by (simp add: decimal_digits_of)
  then show ?thesis
    using True assms(1,2) digits_of_nonempty [of "nat (- n)"]
    by (simp add: stoi_def to_string_def Let_def sp tw)
next
  case False
  let ?ds = "digits_of (nat n)"
  have tw: "takeWhile isdigit (?ds @ rest) = ?ds"
    using digits_of_isdigit assms(3) by (rule takeWhile_digits)
  obtain d ds' where ds: "?ds = d # ds'"
    using digits_of_nonempty [of "nat n"] by (cases ?ds) auto
  have d: "isdigit d" using digits_of_isdigit [of "nat n"] ds by simp
  have dec: "decimal ?ds = n" using False by (simp add: decimal_digits_of)
  have dw: "dropWhile isspace (?ds @ rest) = ?ds @ rest"
    using isdigit_not_special(1) [OF d] ds by simp
  have hd: "hd (?ds @ rest) = d" using ds by simp
  show ?thesis
    using False assms(1,2) isdigit_not_special(2,3) [OF d] digits_of_nonempty [of "nat n"] dec
    unfolding stoi_def to_string_def Let_def
    by (simp add: dw hd tw)
qed

lemma strToIntSafe_to_string:
  "INT_MIN \<le> n \<Longrightarrow> n \<le> INT_MAX \<Longrightarrow> rest = [] \<or> \<not> isdigit (hd rest) \<Longrightarrow>
   strToIntSafe (to_string n @ rest) = n"
  by (simp add: strToIntSafe_def stoi_to_string)

lemma to_string_chars: "list_all (\<lambda>c. isdigit c \<or> c = CHR ''-'') (to_string n)"
  using digits_of_isdigit [of "nat n"] digits_of_isdigit [of "nat (- n)"]
  by (auto simp: to_string_def list_all_iff)

lemma c_str_id: "NUL \<notin> set s \<Longrightarrow> c_str s = s"
  by (auto simp: c_str_def takeWhile_eq_all_conv)

lemma to_string_no_NUL: "NUL \<notin> set (to_string n)"
  using to_string_chars [of n] isdigit_not_special(4) by (auto simp: list_all_iff)

lemma stoi_range: "stoi s = Some v \<Longrightarrow> INT_MIN \<le> v \<and> v \<le> INT_MAX"
  by (auto simp: stoi_def Let_def split: if_splits)

section \<open>The settings: the daily rate\<close>

lemma next_outcome_ok: "faults st = [] \<Longrightarrow> next_outcome st = (False, st)"
  by (simp add: next_outcome_def)

lemma getDailyRate_nonneg: "0 \<le> fst (getDailyRate st)"
  by (simp add: getDailyRate_def Let_def split: prod.splits bool.splits)

lemma next_outcome_settings:
  "fst (next_outcome st) = False \<Longrightarrow> settings (snd (next_outcome st)) = settings st"
  by (simp add: next_outcome_def split: list.splits outcome.splits)

lemma next_outcome_failed:
  assumes "faults st \<noteq> []" and "hd (faults st) \<noteq> Done"
  shows "fst (next_outcome st) = True"
    and "settings (snd (next_outcome st))
         = (if hd (faults st) = FailedRollback then settings (rollback st) else settings st)"
  using assms
  by (cases "faults st"; cases "hd (faults st)";
      simp add: next_outcome_def rollback_def split: option.splits)+

lemma getDailyRate_value:
  "fst (getDailyRate st) = 0 \<or>
   (fst (next_outcome st) = False \<and>
    (\<exists>v r. settings st ''daily_rate'' = Some v \<and> stoi v = Some r \<and> 0 < r \<and> fst (getDailyRate st) = r))"
  using next_outcome_settings [of st]
  by (cases "next_outcome st") (auto simp: getDailyRate_def Let_def split: option.splits bool.splits)

text \<open>
  Claim C10. The daily rate is kept non-negative at the public interface: for every integer
  \<open>r\<close>, negative ones included, a setDailyRate that succeeds stores the decimal text of
  \<open>max 0 r\<close>, and reading it back gives \<open>max 0 r\<close>; getDailyRate always returns a value
  \<open>\<ge> 0\<close>, and it returns 0 when the setting is absent, when its text does not parse, and
  when it parses to a negative number. A setDailyRate that the engine fails returns false
  and leaves the settings as they were, or as they were when the open transaction began
  if the engine rolls it back.
\<close>

theorem dailyRate_nonneg:
  "0 \<le> fst (getDailyRate st)
   \<and> (settings st ''daily_rate'' = None \<longrightarrow> fst (getDailyRate st) = 0)
   \<and> (\<forall>v. settings st ''daily_rate'' = Some v \<and> stoi v = None \<longrightarrow> fst (getDailyRate st) = 0)
   \<and> (\<forall>v n. settings st ''daily_rate'' = Some v \<and> stoi v = Some n \<and> n < 0 \<longrightarrow>
         fst (getDailyRate st) = 0)
   \<and> (faults st = [] \<longrightarrow>
         fst (setDailyRate r st) = True
         \<and> settings (snd (setDailyRate r st)) ''daily_rate'' = Some (to_string (max 0 r))
         \<and> books (snd (setDailyRate r st)) = books st
         \<and> (r \<le> INT_MAX \<longrightarrow> fst (getDailyRate (snd (setDailyRate r st))) = max 0 r))
   \<and> (faults st \<noteq> [] \<and> hd (faults st) \<noteq> Done \<longrightarrow>
         fst (setDailyRate r st) = False
         \<and> settings (snd (setDailyRate r st))
             = (if hd (faults st) = FailedRollback then settings (rollback st) else settings st))
   \<and> (txn st = None \<longrightarrow> rollback st = st)"
proof (intro conjI allI impI)
  show "0 \<le> fst (getDailyRate st)" by (rule getDailyRate_nonneg)
  show "fst (getDailyRate st) = 0" if "settings st ''daily_rate'' = None"
    using that getDailyRate_value [of st] by auto
  show "fst (getDailyRate st) = 0" if "settings st ''daily_rate'' = Some v \<and> stoi v = None" for v
    using that getDailyRate_value [of st] by auto
  show "fst (getDailyRate st) = 0"
    if "settings st ''daily_rate'' = Some v \<and> stoi v = Some n \<and> n < 0" for v n
    using that getDailyRate_value [of st] by auto
  show "fst (setDailyRate r st) = True" if "faults st = []"
    using that by (simp add: setDailyRate_def next_outcome_ok Let_def)
  show s: "settings (snd (setDailyRate r st)) ''daily_rate'' = Some (to_string (max 0 r))"
    if "faults st = []"
    using that by (simp add: setDailyRate_def next_outcome_ok Let_def c_str_id to_string_no_NUL)
  show "books (snd (setDailyRate r st)) = books st" if "faults st = []"
    using that by (simp add: setDailyRate_def next_outcome_ok Let_def)
  show "fst (getDailyRate (snd (setDailyRate r st))) = max 0 r"
    if f: "faults st = []" and r: "r \<le> INT_MAX"
  proof -
    have "faults (snd (setDailyRate r st)) = []"
      using f by (simp add: setDailyRate_def next_outcome_ok Let_def)
    moreover have "stoi (to_string (max 0 r) @ []) = Some (max 0 r)"
      using r by (intro stoi_to_string) (simp_all add: INT_MIN_def INT_MAX_def)
    ultimately show ?thesis
      using s [OF f] by (simp add: getDailyRate_def next_outcome_ok Let_def)
  qed
  show "fst (setDailyRate r st) = False" if "faults st \<noteq> [] \<and> hd (faults st) \<noteq> Done"
    using next_outcome_failed(1) [of st] that
    by (cases "next_outcome st") (simp add: setDailyRate_def)
  show "settings (snd (setDailyRate r st))
        = (if hd (faults st) = FailedRollback then settings (rollback st) else settings st)"
    if "faults st \<noteq> [] \<and> hd (faults st) \<noteq> Done"
    using next_outcome_failed [of st] that
    by (cases "next_outcome st") (simp add: setDailyRate_def)
  show "rollback st = st" if "txn st = None"
    using that by (simp add: rollback_def)
qed

theorem dailyRate_nonneg_witness:
  "settings (snd (setDailyRate (- 5) empty_store)) ''daily_rate'' = Some ''0''
   \<and> fst (getDailyRate (snd (setDailyRate (- 5) empty_store))) = 0
   \<and> fst (getDailyRate (snd (setDailyRate 30 empty_store))) = 30
   \<and> fst (getDailyRate empty_store) = 0
   \<and> fst (getDailyRate (empty_store\<lparr>settings := [''daily_rate'' \<mapsto> ''fast'']\<rparr>)) = 0
   \<and> fst (getDailyRate (empty_store\<lparr>settings := [''daily_rate'' \<mapsto> ''-3'']\<rparr>)) = 0
   \<and> fst (setDailyRate 30 (empty_store\<lparr>faults := [Failed]\<rparr>)) = False
   \<and> settings (snd (setDailyRate 30 (empty_store\<lparr>faults := [FailedRollback]\<rparr>)))
       = settings empty_store"
proof -
  have f: "faults empty_store = []" by (simp add: empty_store_def)
  have t0: "to_string 0 = ''0''"
    by (simp add: to_string_def digits_of.simps digit_char_numerals)
  have a: "settings (snd (setDailyRate (- 5) empty_store)) ''daily_rate'' = Some ''0''"
    and b: "fst (getDailyRate (snd (setDailyRate (- 5) empty_store))) = 0"
    using dailyRate_nonneg [of empty_store "- 5"] f by (simp_all add: t0 INT_MAX_def)
  have c: "fst (getDailyRate (snd (setDailyRate 30 empty_store))) = 30"
    using dailyRate_nonneg [of empty_store 30] f by (simp add: INT_MAX_def)
  have d: "fst (getDailyRate empty_store) = 0"
    using dailyRate_nonneg [of empty_store 0] by (simp add: empty_store_def)
  have s1: "stoi ''fast'' = None"
    by (simp add: stoi_def isspace_def isdigit_def)
  have e: "fst (getDailyRate (empty_store\<lparr>settings := [''daily_rate'' \<mapsto> ''fast'']\<rparr>)) = 0"
    using dailyRate_nonneg [of "empty_store\<lparr>settings := [''daily_rate'' \<mapsto> ''fast'']\<rparr>" 0] s1
    by simp
  have s2: "stoi ''-3'' = Some (- 3)"
    by (simp add: stoi_def isspace_def isdigit_def decimal_def INT_MIN_def INT_MAX_def)
  have g: "fst (getDailyRate (empty_store\<lparr>settings := [''daily_rate'' \<mapsto> ''-3'']\<rparr>)) = 0"
    using dailyRate_nonneg [of "empty_store\<lparr>settings := [''daily_rate'' \<mapsto> ''-3'']\<rparr>" 0] s2
    by simp
  have h: "fst (setDailyRate 30 (empty_store\<lparr>faults := [Failed]\<rparr>)) = False"
    using dailyRate_nonneg [of "empty_store\<lparr>faults := [Failed]\<rparr>" 30] by simp
  have k: "settings (snd (setDailyRate 30 (empty_store\<lparr>faults := [FailedRollback]\<rparr>)))
           = settings empty_store"
    using dailyRate_nonneg [of "empty_store\<lparr>faults := [FailedRollback]\<rparr>" 30]
    by (simp add: empty_store_def rollback_def)
  show ?thesis using a b c d e g h k by simp
qed

section \<open>Status and progress updates\<close>

lemma find_map_same_id:
  assumes "\<And>b. id_book (f b) = id_book b"
  shows "find (\<lambda>b. id_book b = i) (map f xs) = map_option f (find (\<lambda>b. id_book b = i) xs)"
  by (induction xs) (simp_all add: assms)

lemma find_map_other_id:
  assumes "j \<noteq> i" and "\<And>b. id_book (f b) = id_book b"
  shows "find (\<lambda>b. id_book b = j) (map (\<lambda>b. if id_book b = i then f b else b) xs)
         = find (\<lambda>b. id_book b = j) xs"
  using assms by (induction xs) auto

lemma find_Some_id: "find (\<lambda>b. id_book b = i) xs = Some b \<Longrightarrow> id_book b = i"
  by (induction xs) (auto split: if_splits)

lemma get_ok: "faults st = [] \<Longrightarrow> get i st = (find (\<lambda>b. id_book b = i) (books st), st)"
  by (simp add: get_def next_outcome_ok)

lemma updateStatus_ok:
  "faults st = [] \<Longrightarrow>
   updateStatus i s st =
     (True, st\<lparr>books := map (\<lambda>b. if id_book b = i
                                   then b\<lparr>status := s,
                                          currentPage := (if s = 2 then totalPages b else currentPage b)\<rparr>
                                   else b) (books st)\<rparr>)"
  by (simp add: updateStatus_def next_outcome_ok)

lemma updateProgress_ok:
  "faults st = [] \<Longrightarrow>
   updateProgress i p s st =
     (True, st\<lparr>books := map (\<lambda>b. if id_book b = i then b\<lparr>currentPage := p, status := s\<rparr> else b)
                            (books st)\<rparr>)"
  by (simp add: updateProgress_def next_outcome_ok)

text \<open>
  Claim C4. For every stored record id, with the engine executing the statement,
  setStatus(id, Finished) (updateStatus with status 2) sets the record's currentPage to its
  totalPages; with any other status it leaves currentPage as it was; updateProgress sets
  exactly the currentPage and the status passed, without any adjustment. In each case the
  id, title, author, totalPages and isbn of every row are unchanged, and so is every record
  stored under another id.
\<close>

theorem status_coupling:
  assumes "faults st = []" and "fst (get i st) = Some b"
  shows "fst (updateStatus i s st) = True
    \<and> fst (get i (snd (updateStatus i 2 st))) = Some (b\<lparr>status := 2, currentPage := totalPages b\<rparr>)
    \<and> (s \<noteq> 2 \<longrightarrow> fst (get i (snd (updateStatus i s st))) = Some (b\<lparr>status := s\<rparr>))
    \<and> map frame (books (snd (updateStatus i s st))) = map frame (books st)
    \<and> fst (updateProgress i p s st) = True
    \<and> fst (get i (snd (updateProgress i p s st))) = Some (b\<lparr>currentPage := p, status := s\<rparr>)
    \<and> map frame (books (snd (updateProgress i p s st))) = map frame (books st)
    \<and> (\<forall>j. j \<noteq> i \<longrightarrow>
          fst (get j (snd (updateStatus i s st))) = fst (get j st)
          \<and> fst (get j (snd (updateProgress i p s st))) = fst (get j st))"
proof -
  note f = assms(1)
  have b: "find (\<lambda>b. id_book b = i) (books st) = Some b"
    using assms by (simp add: get_ok)
  have fs: "\<And>s. find (\<lambda>b. id_book b = i)
              (map (\<lambda>b. if id_book b = i
                         then b\<lparr>status := s, currentPage := (if s = 2 then totalPages b else currentPage b)\<rparr>
                         else b) (books st))
            = Some (b\<lparr>status := s, currentPage := (if s = 2 then totalPages b else currentPage b)\<rparr>)"
    using find_Some_id [OF b] by (subst find_map_same_id) (simp_all add: b)
  have fp: "find (\<lambda>b. id_book b = i)
              (map (\<lambda>b. if id_book b = i then b\<lparr>currentPage := p, status := s\<rparr> else b) (books st))
            = Some (b\<lparr>currentPage := p, status := s\<rparr>)"
    using find_Some_id [OF b] by (subst find_map_same_id) (simp_all add: b)
  have g: "\<And>bs. get i (st\<lparr>books := bs\<rparr>) = (find (\<lambda>b. id_book b = i) bs, st\<lparr>books := bs\<rparr>)"
    "\<And>j bs. get j (st\<lparr>books := bs\<rparr>) = (find (\<lambda>b. id_book b = j) bs, st\<lparr>books := bs\<rparr>)"
    using f by (simp_all add: get_ok)
  show ?thesis
  proof (intro conjI allI impI)
    show "fst (updateStatus i s st) = True" by (simp add: updateStatus_ok f)
    show "fst (get i (snd (updateStatus i 2 st))) = Some (b\<lparr>status := 2, currentPage := totalPages b\<rparr>)"
      using fs [of 2] by (simp add: updateStatus_ok f g)
    show "fst (get i (snd (updateStatus i s st))) = Some (b\<lparr>status := s\<rparr>)" if "s \<noteq> 2"
      using fs [of s] that by (simp add: updateStatus_ok f g)
    show "map frame (books (snd (updateStatus i s st))) = map frame (books st)"
      by (simp add: updateStatus_ok f frame_def)
    show "fst (updateProgress i p s st) = True" by (simp add: updateProgress_ok f)
    show "fst (get i (snd (updateProgress i p s st))) = Some (b\<lparr>currentPage := p, status := s\<rparr>)"
      using fp by (simp add: updateProgress_ok f g)
    show "map frame (books (snd (updateProgress i p s st))) = map frame (books st)"
      by (simp add: updateProgress_ok f frame_def)
    show "fst (get j (snd (updateStatus i s st))) = fst (get j st)" if "j \<noteq> i" for j
      using that by (simp add: updateStatus_ok f g get_ok find_map_other_id)
    show "fst (get j (snd (updateProgress i p s st))) = fst (get j st)" if "j \<noteq> i" for j
      using that by (simp add: updateProgress_ok f g get_ok find_map_other_id)
  qed
qed

theorem status_coupling_witness:
  "fst (get 1 shelf) = Some hobbit
   \<and> fst (get 1 (snd (updateStatus 1 2 shelf))) = Some (hobbit\<lparr>status := 2, currentPage := 310\<rparr>)
   \<and> fst (get 1 (snd (updateStatus 1 0 shelf))) = Some (hobbit\<lparr>status := 0\<rparr>)
   \<and> fst (get 1 (snd (updateProgress 1 310 1 shelf))) = Some (hobbit\<lparr>currentPage := 310, status := 1\<rparr>)
   \<and> fst (get 2 (snd (updateStatus 1 2 shelf))) = Some dune"
proof -
  have f: "faults shelf = []" by (simp add: shelf_def)
  have g1: "fst (get 1 shelf) = Some hobbit"
    by (simp add: get_ok f) (simp add: shelf_def hobbit_def)
  have g2: "fst (get 2 shelf) = Some dune"
    by (simp add: get_ok f) (simp add: shelf_def hobbit_def dune_def)
  have t: "totalPages hobbit = 310" by (simp add: hobbit_def)
  from status_coupling [OF f g1, of 2 310]
  have a: "fst (get 1 (snd (updateStatus 1 2 shelf))) = Some (hobbit\<lparr>status := 2, currentPage := 310\<rparr>)"
    and e: "fst (get 2 (snd (updateStatus 1 2 shelf))) = Some dune"
    using g2 by (simp_all add: t)
  from status_coupling [OF f g1, of 0 310]
  have b: "fst (get 1 (snd (updateStatus 1 0 shelf))) = Some (hobbit\<lparr>status := 0\<rparr>)"
    by simp
  from status_coupling [OF f g1, of 1 310]
  have c: "fst (get 1 (snd (updateProgress 1 310 1 shelf))) = Some (hobbit\<lparr>currentPage := 310, status := 1\<rparr>)"
    by simp
  show ?thesis using g1 a b c e by simp
qed

section \<open>Search\<close>

lemma tolower_idem: "tolower (tolower c) = tolower c"
  by (auto simp: tolower_def)

lemma of_char_tolower:
  "(of_char (tolower c) :: nat) =
     (if 65 \<le> (of_char c :: nat) \<and> (of_char c :: nat) \<le> 90 then of_char c + 32 else of_char c)"
  by (simp add: tolower_def)

lemma tolower_eq_iff:
  assumes "(of_char d :: nat) < 97 \<or> 122 < (of_char d :: nat)"
    and "(of_char d :: nat) < 65 \<or> 90 < (of_char d :: nat)"
  shows "tolower c = d \<longleftrightarrow> c = d"
proof -
  define n :: nat where "n = of_char c"
  define m :: nat where "m = of_char d"
  have a: "m < 97 \<or> 122 < m" "m < 65 \<or> 90 < m" using assms by (simp_all add: m_def)
  have "tolower c = d \<longleftrightarrow> (of_char (tolower c) :: nat) = of_char d"
    by (simp only: of_char_eq_iff)
  also have "\<dots> \<longleftrightarrow> (if 65 \<le> n \<and> n \<le> 90 then n + 32 else n) = m"
    by (simp only: of_char_tolower n_def m_def)
  also have "\<dots> \<longleftrightarrow> n = m"
    using a by (cases "65 \<le> n \<and> n \<le> 90") auto
  also have "\<dots> \<longleftrightarrow> c = d"
    by (simp only: n_def m_def of_char_eq_iff)
  finally show ?thesis .
qed

lemma tolower_plain:
  "tolower c = CHR ''%'' \<longleftrightarrow> c = CHR ''%''"
  "tolower c = CHR ''_'' \<longleftrightarrow> c = CHR ''_''"
  "tolower c = NUL \<longleftrightarrow> c = NUL"
  by (rule tolower_eq_iff; simp)+

lemma code_of_char: "(of_char c :: int) = int (of_char c)"
  by (simp only: of_nat_of_char)

lemma code_range: "0 \<le> (of_char c :: int)" "(of_char c :: int) < 256"
proof -
  have "(of_char c :: nat) < 256" by simp
  then show "(of_char c :: int) < 256" unfolding code_of_char by linarith
  show "0 \<le> (of_char c :: int)" unfolding code_of_char by simp
qed

lemma code_eq_iff: "(of_char c :: int) = of_char d \<longleftrightarrow> c = d"
  unfolding code_of_char by (simp only: of_nat_eq_iff of_char_eq_iff)

lemma code_tolower:
  "(of_char (tolower c) :: int) =
     (if 65 \<le> (of_char c :: int) \<and> (of_char c :: int) \<le> 90 then of_char c + 32 else of_char c)"
proof -
  define n :: nat where "n = of_char c"
  have "int (if 65 \<le> n \<and> n \<le> 90 then n + 32 else n)
        = (if 65 \<le> int n \<and> int n \<le> 90 then int n + 32 else int n)"
    by simp
  then show ?thesis
    unfolding code_of_char of_char_tolower n_def .
qed

lemma find_sub_sublist: "find_sub p s = sublist p s"
  by (induction s) (simp_all add: sublist_Cons_right)

subsection \<open>LIKE on characters\<close>

lemma like_percent: "like_chars [37] t"
  by (induction t) (simp_all add: like_chars.simps)

lemma like_plain_step:
  assumes "q < 128" and "q \<noteq> 37" and "q \<noteq> 95" and "\<not> (65 \<le> q \<and> q \<le> 90)"
    and "\<not> (65 \<le> c \<and> c \<le> 90)"
  shows "like_chars (q # ps) (c # cs) \<longleftrightarrow> q = c \<and> like_chars ps cs"
  using assms by (auto simp: like_chars.simps ascii_lower_def)

lemma like_prefix:
  assumes "list_all (\<lambda>q. q < 128 \<and> q \<noteq> 37 \<and> q \<noteq> 95 \<and> \<not> (65 \<le> q \<and> q \<le> 90)) qs"
    and "list_all (\<lambda>c. \<not> (65 \<le> c \<and> c \<le> 90)) t"
  shows "like_chars (qs @ [37]) t \<longleftrightarrow> prefix qs t"
  using assms
proof (induction qs arbitrary: t)
  case Nil
  then show ?case using like_percent by simp
next
  case (Cons q qs)
  show ?case
  proof (cases t)
    case Nil
    then show ?thesis using Cons.prems(1) by (simp add: like_chars.simps)
  next
    case (Cons c cs)
    have "like_chars (q # qs @ [37]) (c # cs) \<longleftrightarrow> q = c \<and> like_chars (qs @ [37]) cs"
      using Cons.prems Cons by (intro like_plain_step) simp_all
    also have "like_chars (qs @ [37]) cs \<longleftrightarrow> prefix qs cs"
      using Cons.prems Cons by (intro Cons.IH) simp_all
    finally show ?thesis using Cons by simp
  qed
qed

lemma like_infix:
  assumes "list_all (\<lambda>q. q < 128 \<and> q \<noteq> 37 \<and> q \<noteq> 95 \<and> \<not> (65 \<le> q \<and> q \<le> 90)) qs"
    and "list_all (\<lambda>c. \<not> (65 \<le> c \<and> c \<le> 90)) t"
  shows "like_chars (37 # qs @ [37]) t \<longleftrightarrow> sublist qs t"
  using assms(2)
proof (induction t)
  case Nil
  have "like_chars (37 # qs @ [37]) [] \<longleftrightarrow> like_chars (qs @ [37]) []"
    by (simp add: like_chars.simps)
  then show ?case using like_prefix [OF assms(1), of "[]"] by simp
next
  case (Cons c cs)
  have "like_chars (37 # qs @ [37]) (c # cs)
        \<longleftrightarrow> like_chars (qs @ [37]) (c # cs) \<or> like_chars (37 # qs @ [37]) cs"
    by (simp add: like_chars.simps)
  also have "like_chars (qs @ [37]) (c # cs) \<longleftrightarrow> prefix qs (c # cs)"
    using Cons.prems by (intro like_prefix [OF assms(1)])
  also have "like_chars (37 # qs @ [37]) cs \<longleftrightarrow> sublist qs cs"
    using Cons.prems by (intro Cons.IH) simp
  finally show ?case by (simp add: sublist_Cons_right)
qed

subsection \<open>Reading characters from bytes\<close>

lemma utf8_done_ge: "128 \<le> utf8_done c"
  by (simp add: utf8_done_def)

lemma utf8_pending_head:
  "utf8_chars_from t (Some c) \<noteq> [] \<and> 128 \<le> hd (utf8_chars_from t (Some c))"
  by (induction t arbitrary: c) (simp_all add: utf8_done_ge)

lemma utf8_ascii:
  "list_all (\<lambda>b. (of_char b :: int) < 128) s \<Longrightarrow> utf8_chars_from s None = map of_char s"
  by (induction s) simp_all

lemma utf8_members:
  "x \<in> set (utf8_chars_from t st) \<Longrightarrow> 128 \<le> x \<or> (\<exists>b\<in>set t. x = of_char b)"
proof (induction t st arbitrary: x rule: utf8_chars_from.induct)
  case 1
  then show ?case by simp
next
  case (2 c)
  then show ?case by (simp add: utf8_done_ge)
next
  case (3 b bs)
  then show ?case by (auto split: if_splits)
next
  case (4 b bs c)
  then show ?case using utf8_done_ge [of c] by (auto split: if_splits)
qed

lemma prefix_decoded:
  assumes "list_all (\<lambda>b. (of_char b :: int) < 128) q"
  shows "prefix (map of_char q) (utf8_chars_from t None) \<longleftrightarrow> prefix q t"
  using assms
proof (induction q arbitrary: t)
  case Nil
  then show ?case by simp
next
  case (Cons a q)
  have a: "(of_char a :: int) < 128" using Cons.prems by simp
  have q: "list_all (\<lambda>b. (of_char b :: int) < 128) q" using Cons.prems by simp
  show ?case
  proof (cases t)
    case Nil
    then show ?thesis by simp
  next
    case (Cons b bs)
    show ?thesis
    proof (cases "(of_char b :: int) < 192")
      case True
      then show ?thesis
        using Cons.IH [OF q, of bs] by (simp add: Cons code_eq_iff)
    next
      case False
      obtain h rest where h: "utf8_chars_from bs (Some (utf8_lead (of_char b))) = h # rest" "128 \<le> h"
        using utf8_pending_head [of bs "utf8_lead (of_char b)"]
        by (cases "utf8_chars_from bs (Some (utf8_lead (of_char b)))") auto
      have "a \<noteq> b" using a False by auto
      then show ?thesis
        using False a h by (simp add: Cons)
    qed
  qed
qed

lemma sublist_decoded_both:
  assumes "list_all (\<lambda>b. (of_char b :: int) < 128) q"
  shows "(sublist (map of_char q) (utf8_chars_from t None) \<longleftrightarrow> sublist q t)
       \<and> (\<forall>c. sublist (map of_char q) (utf8_chars_from t (Some c)) \<longleftrightarrow> sublist q t)"
proof (cases q)
  case Nil
  then show ?thesis by simp
next
  case (Cons a q')
  have a: "(of_char a :: int) < 128" using assms Cons by simp
  have no: "\<And>(h::int) rest. 128 \<le> h \<Longrightarrow> \<not> prefix (map of_char q) (h # rest)"
    using a by (auto simp: Cons)
  have nb: "\<And>b rest. \<not> (of_char b :: int) < 128 \<Longrightarrow> \<not> prefix q (b # rest)"
    using a by (auto simp: Cons)
  show ?thesis
  proof (induction t)
    case Nil
    have "\<not> sublist (map of_char q) [utf8_done c]" for c
      using no [OF utf8_done_ge, of c "[]"] by (simp add: Cons sublist_Cons_right)
    then show ?case by (simp add: Cons)
  next
    case (Cons b bs)
    note ih = Cons.IH
    have none: "sublist (map of_char q) (utf8_chars_from (b # bs) None) \<longleftrightarrow> sublist q (b # bs)"
    proof (cases "(of_char b :: int) < 192")
      case True
      have "sublist (map of_char q) (utf8_chars_from (b # bs) None)
            \<longleftrightarrow> prefix (map of_char q) (utf8_chars_from (b # bs) None)
                \<or> sublist (map of_char q) (utf8_chars_from bs None)"
        using True by (simp add: sublist_Cons_right)
      then show ?thesis
        using prefix_decoded [OF assms, of "b # bs"] ih by (simp add: sublist_Cons_right)
    next
      case False
      then have "\<not> prefix q (b # bs)" by (intro nb) simp
      then show ?thesis
        using False ih by (simp add: sublist_Cons_right)
    qed
    have some: "sublist (map of_char q) (utf8_chars_from (b # bs) (Some c)) \<longleftrightarrow> sublist q (b # bs)" for c
    proof (cases "128 \<le> (of_char b :: int) \<and> (of_char b :: int) < 192")
      case True
      then have "\<not> prefix q (b # bs)" by (intro nb) simp
      then show ?thesis
        using True ih by (simp add: sublist_Cons_right)
    next
      case False
      have u: "utf8_chars_from (b # bs) (Some c) = utf8_done c # utf8_chars_from (b # bs) None"
        using False by auto
      show ?thesis
        unfolding u using none no [OF utf8_done_ge] by (simp add: sublist_Cons_right)
    qed
    show ?case using none some by blast
  qed
qed

lemma sublist_decoded:
  assumes "list_all (\<lambda>b. (of_char b :: int) < 128) q"
  shows "sublist (map of_char q) (utf8_chars t) \<longleftrightarrow> sublist q t"
  using sublist_decoded_both [OF assms, of t] by (simp add: utf8_chars_def)

lemma lowered_chars:
  "list_all (\<lambda>c. \<not> (65 \<le> c \<and> c \<le> 90)) (utf8_chars (map tolower s))"
proof -
  have "\<not> (65 \<le> x \<and> x \<le> 90)" if "x \<in> set (utf8_chars_from (map tolower s) None)" for x
  proof -
    from utf8_members [OF that]
    consider "128 \<le> x" | b where "b \<in> set s" "x = of_char (tolower b)" by auto
    then show ?thesis
    proof cases
      case 1
      then show ?thesis by simp
    next
      case 2
      then show ?thesis by (simp add: code_tolower)
    qed
  qed
  then show ?thesis unfolding utf8_chars_def list_all_iff by blast
qed

lemma search_pattern:
  assumes "plain_query q"
  shows "sql_like (c_str (map tolower (''%'' @ q @ ''%''))) (sql_lower s) \<longleftrightarrow> contains_ci q s"
proof -
  define lq where "lq = map tolower q"
  have t: "tolower CHR ''%'' = CHR ''%''" by (simp only: tolower_plain)
  have q: "c \<noteq> CHR ''%'' \<and> c \<noteq> CHR ''_'' \<and> c \<noteq> NUL \<and> (of_char c :: int) < 128
           \<and> \<not> (65 \<le> (of_char c :: int) \<and> (of_char c :: int) \<le> 90)" if "c \<in> set lq" for c
  proof -
    have "c \<in> tolower ` set q" using that by (simp add: lq_def)
    then obtain d where d: "d \<in> set q" "c = tolower d" by blast
    have p: "d \<noteq> CHR ''%''" "d \<noteq> CHR ''_''" "d \<noteq> NUL" "(of_char d :: int) < 128"
      using assms d(1) unfolding plain_query_def list_all_iff by blast+
    show ?thesis using p unfolding d(2) by (simp add: tolower_plain code_tolower)
  qed
  have e: "map tolower (''%'' @ q @ ''%'') = CHR ''%'' # lq @ ''%''"
    by (simp add: t lq_def)
  have n: "NUL \<notin> set (CHR ''%'' # lq @ ''%'')"
    using q by auto
  have a: "list_all (\<lambda>b. (of_char b :: int) < 128) lq"
    using q unfolding list_all_iff by blast
  have a': "list_all (\<lambda>b. (of_char b :: int) < 128) (CHR ''%'' # lq @ ''%'')"
    using a by simp
  have u: "utf8_chars (CHR ''%'' # lq @ ''%'') = 37 # map of_char lq @ [37]"
    unfolding utf8_chars_def utf8_ascii [OF a'] by simp
  have p: "list_all (\<lambda>q. q < 128 \<and> q \<noteq> 37 \<and> q \<noteq> 95 \<and> \<not> (65 \<le> q \<and> q \<le> 90)) (map of_char lq :: int list)"
  proof -
    have "(of_char c :: int) \<noteq> 37 \<and> (of_char c :: int) \<noteq> 95" if "c \<in> set lq" for c
    proof -
      have "(of_char c :: int) \<noteq> of_char CHR ''%''" "(of_char c :: int) \<noteq> of_char CHR ''_''"
        using q [OF that] by (simp_all only: code_eq_iff not_False_eq_True)
      then show ?thesis by simp
    qed
    then show ?thesis using q unfolding list_all_iff by auto
  qed
  have "sql_like (CHR ''%'' # lq @ ''%'') (map tolower s)
        \<longleftrightarrow> sublist (map of_char lq) (utf8_chars (map tolower s))"
    unfolding sql_like_def u by (rule like_infix [OF p lowered_chars])
  also have "\<dots> \<longleftrightarrow> sublist lq (map tolower s)"
    by (rule sublist_decoded [OF a])
  finally have "sql_like (c_str (map tolower (''%'' @ q @ ''%''))) (map tolower s)
                \<longleftrightarrow> sublist lq (map tolower s)"
    unfolding e c_str_id [OF n] .
  then show ?thesis
    unfolding sql_lower_def contains_ci_def find_sub_sublist lq_def .
qed

lemma search_bound_length:
  assumes "plain_query q"
  shows "length (c_str (map tolower (''%'' @ q @ ''%''))) = length q + 2"
proof -
  have t: "tolower CHR ''%'' \<noteq> NUL" by (simp only: tolower_plain) simp
  have "tolower d \<noteq> NUL" if "d \<in> set q" for d
  proof -
    have "d \<noteq> NUL" using assms that unfolding plain_query_def list_all_iff by blast
    then show ?thesis by (simp only: tolower_plain not_False_eq_True)
  qed
  then have "\<forall>d\<in>set q. tolower d \<noteq> NUL" ..
  then have "NUL \<notin> tolower ` set q" unfolding image_iff by (simp only: bex_simps) metis
  then have "NUL \<notin> set (map tolower (''%'' @ q @ ''%''))"
    using t by (simp del: tolower_plain)
  then have "c_str (map tolower (''%'' @ q @ ''%'')) = map tolower (''%'' @ q @ ''%'')"
    by (rule c_str_id)
  then show ?thesis by simp
qed

lemma search_plain:
  assumes "faults st = []" and "plain_query q" and "int (length q) + 2 \<le> like_pattern_limit"
  shows "fst (search q st) =
           sort_key id_book
             (filter (\<lambda>b. contains_ci q (title b) \<or> contains_ci q (author b)) (books st))"
  using assms(3)
  unfolding search_def Let_def next_outcome_ok [OF assms(1)] search_pattern [OF assms(2)]
    search_bound_length [OF assms(2)]
  by simp

lemma search_sorted: "sorted (map id_book (fst (search q st)))"
proof (cases "next_outcome st")
  case (Pair failed st')
  define bound where "bound = c_str (map tolower (''%'' @ q @ ''%''))"
  show ?thesis
    unfolding search_def Let_def Pair bound_def [symmetric]
    by (cases failed) simp_all
qed

lemma search_long:
  assumes "like_pattern_limit < int (length (c_str (map tolower (''%'' @ q @ ''%''))))"
  shows "fst (search q st) = []"
proof (cases "next_outcome st")
  case (Pair failed st')
  define bound where "bound = c_str (map tolower (''%'' @ q @ ''%''))"
  show ?thesis
    using assms unfolding search_def Let_def Pair bound_def [symmetric]
    by (cases failed) simp_all
qed

text \<open>
  Claim C9. For every query string, search returns exactly the records whose title or
  author contains the query as a case-insensitive substring, ordered by id ascending, and
  search("tol") finds The Hobbit by J.R.R. Tolkien. The order holds (\<open>search_sorted\<close>), and
  so does the match for a query of ASCII without a percent sign, an underscore or a NUL
  byte, of at most 49998 bytes (\<open>search_plain\<close>; LIKE compares characters of UTF-8, and a
  pattern above 50000 bytes returns nothing, \<open>search_long\<close>). The query is placed between
  two percent signs and handed to LIKE as it is, so its own percent signs and underscores
  act as wildcards: on a shelf holding The Hobbit and Dune, the query \<open>h_b\<close> returns
  The Hobbit, whose title and author do not contain it.
\<close>

theorem search_wildcard:
  "map title (fst (search ''h_b'' shelf)) = [''The Hobbit'']
   \<and> \<not> contains_ci ''h_b'' ''The Hobbit'' \<and> \<not> contains_ci ''h_b'' ''J.R.R. Tolkien''
   \<and> map title (fst (search ''tol'' shelf)) = [''The Hobbit'']
   \<and> contains_ci ''tol'' ''J.R.R. Tolkien''"
  by code_simp

section \<open>CSV export and import\<close>

lemma csvParse_plain_field:
  assumes "COMMA \<notin> set ds" and "DQUOTE \<notin> set ds"
  shows "csvParse_from (ds @ COMMA # rest) cur False = (cur @ ds) # csvParse_from rest [] False"
  using assms by (induction ds arbitrary: cur) auto

lemma csvParse_escaped:
  assumes "rest = [] \<or> hd rest \<noteq> DQUOTE"
  shows "csvParse_from (csvEscape s @ DQUOTE # rest) cur True = csvParse_from rest (cur @ s) False"
  using assms by (induction s arbitrary: cur) auto

lemma csvParse_quoted:
  assumes "rest = [] \<or> hd rest \<noteq> DQUOTE"
  shows "csvParse_from (csvQuote s @ rest) cur False = csvParse_from rest (cur @ s) False"
  using csvParse_escaped [OF assms] by (simp add: csvQuote_def)

lemma csvParse_quoted_comma:
  "csvParse_from (csvQuote s @ COMMA # rest) [] False = s # csvParse_from rest [] False"
  by (simp add: csvParse_quoted)

lemma csvParse_quoted_end:
  "csvParse_from (csvQuote s) [] False = [s]"
  using csvParse_quoted [of "[]" s "[]"] by simp

lemma csvRow_line: "csvRow b = csvLine b @ [NL]"
  by (simp add: csvRow_def csvLine_def)

lemma to_string_plain:
  "COMMA \<notin> set (to_string n)" "DQUOTE \<notin> set (to_string n)" "NL \<notin> set (to_string n)"
proof -
  have d: "\<not> isdigit COMMA" "\<not> isdigit DQUOTE" "\<not> isdigit NL"
    by (simp_all add: isdigit_def)
  have m: "\<And>c. c \<in> set (to_string n) \<Longrightarrow> isdigit c \<or> c = CHR ''-''"
    using to_string_chars [of n] unfolding list_all_iff by blast
  show "COMMA \<notin> set (to_string n)" using m [of COMMA] d(1) by fastforce
  show "DQUOTE \<notin> set (to_string n)" using m [of DQUOTE] d(2) by fastforce
  show "NL \<notin> set (to_string n)" using m [of NL] d(3) by fastforce
qed

lemma csvParse_csvLine:
  "csvParse (csvLine b) =
     [to_string (id_book b), title b, author b, to_string (totalPages b),
      to_string (currentPage b), to_string (status b), isbn b]"
proof -
  have n: "\<And>n rest. csvParse_from (to_string n @ COMMA # rest) [] False
                 = to_string n # csvParse_from rest [] False"
    using csvParse_plain_field [OF to_string_plain(1,2), where cur = "[]"] by simp
  show ?thesis
    unfolding csvParse_def csvLine_def
    by (simp add: n csvParse_quoted_comma csvParse_quoted_end)
qed

lemma getlines_line:
  assumes "NL \<notin> set l"
  shows "getlines_from (l @ NL # rest) cur = (cur @ l) # getlines_from rest []"
  using assms by (induction l arbitrary: cur) auto

lemma getlines_concat:
  assumes "list_all (\<lambda>l. NL \<notin> set l) ls"
  shows "getlines_from (concat (map (\<lambda>l. l @ [NL]) ls)) [] = ls"
  using assms by (induction ls) (simp_all add: getlines_line)

lemma csvEscape_set: "set (csvEscape s) = set s"
  by (induction s) auto

lemma csvLine_no_NL:
  assumes "NL \<notin> set (title b)" and "NL \<notin> set (author b)" and "NL \<notin> set (isbn b)"
  shows "NL \<notin> set (csvLine b)"
  using assms to_string_plain(3) by (simp add: csvLine_def csvQuote_def csvEscape_set)

lemma header_is_header: "find_sub ''id,'' csvHeader"
  by (simp add: csvHeader_def)

lemma header_no_NL: "NL \<notin> set csvHeader"
  by (simp add: csvHeader_def)

lemma fold_max_ge: "s \<le> fold max xs (s::int)"
proof (induction xs arbitrary: s)
  case Nil
  then show ?case by simp
next
  case (Cons x xs)
  have "s \<le> max x s" by simp
  also have "\<dots> \<le> fold max xs (max x s)" by (rule Cons.IH)
  finally show ?case by simp
qed

lemma fold_max_mem: "x \<in> set xs \<Longrightarrow> x \<le> fold max xs (s::int)"
proof (induction xs arbitrary: s)
  case Nil
  then show ?case by simp
next
  case (Cons y ys)
  show ?case
  proof (cases "x = y")
    case True
    have "x \<le> max y s" using True by simp
    also have "\<dots> \<le> fold max ys (max y s)" by (rule fold_max_ge)
    finally show ?thesis by simp
  next
    case False
    then have "x \<in> set ys" using Cons.prems by simp
    then show ?thesis using Cons.IH by simp
  qed
qed

lemma fold_max_top: "(\<And>x. x \<in> set xs \<Longrightarrow> x \<le> s) \<Longrightarrow> fold max xs (s::int) = s"
  by (induction xs) (simp_all add: max_absorb2)

lemma largest_id_bounds:
  "seq st \<le> largest_id st"
  "b \<in> set (books st) \<Longrightarrow> id_book b \<le> largest_id st"
  by (simp_all add: largest_id_def fold_max_ge fold_max_mem)

lemma largest_id_empty: "books st = [] \<Longrightarrow> largest_id st = seq st"
  by (simp add: largest_id_def)

lemma largest_id_add:
  "largest_id (st\<lparr>books := books st @ [b\<lparr>id_book := largest_id st + 1\<rparr>],
                  seq := largest_id st + 1\<rparr>) = largest_id st + 1"
proof -
  have "\<And>x. x \<in> set (map id_book (books st) @ [largest_id st + 1]) \<Longrightarrow> x \<le> largest_id st + 1"
    using largest_id_bounds(2) [of _ st] by fastforce
  then have "fold max (map id_book (books st) @ [largest_id st + 1]) (largest_id st + 1)
             = largest_id st + 1"
    by (rule fold_max_top)
  then show ?thesis by (simp add: largest_id_def)
qed

lemma exec_ok:
  "faults st = [] \<Longrightarrow> faults (exec cmd st) = [] \<and> books (exec cmd st) = books st
     \<and> seq (exec cmd st) = seq st \<and> settings (exec cmd st) = settings st
     \<and> largest_id (exec cmd st) = largest_id st"
  by (cases cmd) (simp_all add: exec_def next_outcome_ok largest_id_def split: option.splits)

lemma exec_commit_ok: "faults st = [] \<Longrightarrow> txn (exec COMMIT st) = None"
  by (simp add: exec_def next_outcome_ok)

lemma add_ok:
  "faults st = [] \<Longrightarrow>
   add b st = (largest_id st + 1,
               st\<lparr>books := books st @ [(bound_texts b)\<lparr>id_book := largest_id st + 1\<rparr>],
                  seq := largest_id st + 1\<rparr>)"
  by (simp add: add_def next_outcome_ok bound_texts_def Let_def)

lemma importLines_ok:
  assumes "faults st = []"
  shows "faults (importLines ls st) = []
    \<and> books (importLines ls st) =
        books st @ renumber (largest_id st) (map (bound_texts \<circ> rowToBook) (validRows ls))
    \<and> largest_id (importLines ls st) = largest_id st + int (length (validRows ls))
    \<and> txn (importLines ls st) = txn st
    \<and> settings (importLines ls st) = settings st"
  using assms
proof (induction ls arbitrary: st)
  case Nil
  then show ?case by (simp add: validRows_def)
next
  case (Cons l ls)
  show ?case
  proof (cases "length (csvParse l) < 7")
    case True
    then have v: "validRows (l # ls) = validRows ls" by (simp add: validRows_def)
    from True have "importLines (l # ls) st = importLines ls st" by (simp add: Let_def)
    then show ?thesis using Cons.IH [OF Cons.prems] v by simp
  next
    case False
    let ?b = "rowToBook (csvParse l)"
    let ?st = "st\<lparr>books := books st @ [(bound_texts ?b)\<lparr>id_book := largest_id st + 1\<rparr>],
                   seq := largest_id st + 1\<rparr>"
    from False have v: "validRows (l # ls) = csvParse l # validRows ls"
      by (simp add: validRows_def)
    from False have i: "importLines (l # ls) st = importLines ls ?st"
      by (simp add: Let_def add_ok [OF Cons.prems])
    have f: "faults ?st = []" using Cons.prems by simp
    have h: "largest_id ?st = largest_id st + 1" by (rule largest_id_add)
    show ?thesis
      unfolding i v using Cons.IH [OF f] by (simp add: h)
  qed
qed

lemma importCsv_ok:
  assumes "faults st = []"
  shows "fst (importCsv (Some content) st) = (getlines content \<noteq> [])
    \<and> books (snd (importCsv (Some content) st)) =
        books st @ renumber (largest_id st)
          (map (bound_texts \<circ> rowToBook) (validRows (dataLines content)))
    \<and> largest_id (snd (importCsv (Some content) st))
        = largest_id st + int (length (validRows (dataLines content)))
    \<and> settings (snd (importCsv (Some content) st)) = settings st"
proof (cases "getlines content")
  case Nil
  then show ?thesis by (simp add: importCsv_def dataLines_def validRows_def)
next
  case (Cons line rest)
  let ?d = "if find_sub ''id,'' line then rest else line # rest"
  have d: "dataLines content = ?d" by (simp add: dataLines_def Cons)
  note e = exec_ok [OF assms, of BEGIN_TRANSACTION]
  have b: "faults (exec BEGIN_TRANSACTION st) = []" using e by simp
  note l = importLines_ok [OF b, of ?d]
  have c: "faults (importLines ?d (exec BEGIN_TRANSACTION st)) = []" using l by simp
  have i: "importCsv (Some content) st
           = (True, exec COMMIT (importLines ?d (exec BEGIN_TRANSACTION st)))"
    by (simp add: importCsv_def Cons Let_def)
  show ?thesis
    unfolding i d using exec_ok [OF c, of COMMIT] l e Cons
    by simp
qed

lemma ids_renumber: "map id_book (renumber k bs) = map (\<lambda>i. k + 1 + int i) [0..<length bs]"
proof (induction bs arbitrary: k)
  case Nil
  then show ?case by simp
next
  case (Cons b bs)
  have "map (\<lambda>i. k + 1 + int i) [0..<Suc (length bs)]
        = (k + 1) # map (\<lambda>i. k + 1 + 1 + int i) [0..<length bs]"
    by (simp add: upt_conv_Cons map_Suc_upt [symmetric] del: upt_Suc)
  then show ?case using Cons [of "k + 1"] by simp
qed

lemma payload_renumber: "map payload (renumber k bs) = map payload bs"
  by (induction bs arbitrary: k) (simp_all add: payload_def)


lemma strToIntSafe_to_string_exact:
  "INT_MIN \<le> n \<Longrightarrow> n \<le> INT_MAX \<Longrightarrow> strToIntSafe (to_string n) = n"
  using strToIntSafe_to_string [of n "[]"] by simp

lemma exportable_texts:
  assumes "exportable b"
  shows "NL \<notin> set (title b)" "NL \<notin> set (author b)" "NL \<notin> set (isbn b)"
    "NUL \<notin> set (title b)" "NUL \<notin> set (author b)" "NUL \<notin> set (isbn b)"
  using assms unfolding exportable_def list_all_iff by blast+

lemma roundtrip_row:
  assumes "exportable b"
  shows "bound_texts (rowToBook (csvParse (csvLine b))) = b\<lparr>id_book := 0\<rparr>"
proof -
  have r: "0 \<le> currentPage b" "currentPage b \<le> totalPages b" "totalPages b \<le> INT_MAX"
    "0 \<le> status b" "status b \<le> 2"
    using assms by (simp_all add: exportable_def)
  have n: "NUL \<notin> set (title b)" "NUL \<notin> set (author b)" "NUL \<notin> set (isbn b)"
    using assms by (rule exportable_texts)+
  have t: "strToIntSafe (to_string (totalPages b)) = totalPages b"
    using r by (intro strToIntSafe_to_string_exact) (simp_all add: INT_MIN_def)
  have c: "strToIntSafe (to_string (currentPage b)) = currentPage b"
    using r by (intro strToIntSafe_to_string_exact) (simp_all add: INT_MIN_def)
  have s: "strToIntSafe (to_string (status b)) = status b"
    using r by (intro strToIntSafe_to_string_exact) (simp_all add: INT_MIN_def INT_MAX_def)
  show ?thesis
    using r by (simp add: csvParse_csvLine rowToBook_def bound_texts_def Let_def clamp_def
        t c s c_str_id [OF n(1)] c_str_id [OF n(2)] c_str_id [OF n(3)])
qed

lemma renumber_reset: "renumber k (map (\<lambda>b. b\<lparr>id_book := 0\<rparr>) bs) = renumber k bs"
  by (induction bs arbitrary: k) simp_all

lemma getlines_export:
  assumes "list_all exportable rows"
  shows "getlines (csvHeader @ [NL] @ concat (map csvRow rows)) = csvHeader # map csvLine rows"
proof -
  have l: "list_all (\<lambda>l. NL \<notin> set l) (map csvLine rows)"
    unfolding list_all_iff
  proof
    fix l assume "l \<in> set (map csvLine rows)"
    then obtain b where b: "b \<in> set rows" "l = csvLine b" by auto
    then have "exportable b" using assms unfolding list_all_iff by blast
    then show "NL \<notin> set l"
      unfolding b(2) by (intro csvLine_no_NL exportable_texts)
  qed
  have m: "map csvRow rows = map (\<lambda>l. l @ [NL]) (map csvLine rows)"
    by (simp add: csvRow_line)
  show ?thesis
    unfolding getlines_def m
    using getlines_line [OF header_no_NL, of "concat (map (\<lambda>l. l @ [NL]) (map csvLine rows))" "[]"]
      getlines_concat [OF l]
    by simp
qed

lemma validRows_export: "validRows (map csvLine rows) = map (csvParse \<circ> csvLine) rows"
  by (induction rows) (simp_all add: validRows_def csvParse_csvLine)

lemma list_books_ok: "faults st = [] \<Longrightarrow> list_books None st = (sort_key id_book (books st), st)"
  by (simp add: list_books_def next_outcome_ok)

lemma exportCsv_ok:
  "faults st = [] \<Longrightarrow>
   exportCsv True st = (Some (csvHeader @ [NL] @ concat (map csvRow (sort_key id_book (books st)))), st)"
  by (simp add: exportCsv_def list_books_ok)








lemma roundtrip_rows:
  assumes "list_all exportable rows"
  shows "map (bound_texts \<circ> rowToBook) (validRows (map csvLine rows)) = map (\<lambda>b. b\<lparr>id_book := 0\<rparr>) rows"
proof -
  have "map (bound_texts \<circ> rowToBook) (map (csvParse \<circ> csvLine) rows)
        = map (\<lambda>b. b\<lparr>id_book := 0\<rparr>) rows"
    using assms unfolding list_all_iff by (simp add: roundtrip_row)
  then show ?thesis unfolding validRows_export .
qed

text \<open>
  Claim C3, as the code has it. For every record set whose records lie within the ranges
  that the import enforces (0 \<open>\<le>\<close> currentPage \<open>\<le>\<close> totalPages, status from 0 to 2) and whose
  texts hold no line feed, exporting and then importing the file into an empty store, the
  engine executing every statement, yields the records of the original in the order of
  their ids, equal in title, author, totalPages, currentPage, status and isbn, with ids
  given afresh from the counter of the new store. Every text field is written between
  quotes with its quote characters doubled, and parsing a quoted field gives the field
  back, whatever it holds.
\<close>

theorem export_import_roundtrip:
  assumes "faults st = []" and "faults st0 = []" and "books st0 = []"
    and "list_all exportable (books st)"
  shows "fst (exportCsv True st) \<noteq> None
    \<and> fst (importCsv (fst (exportCsv True st)) st0) = True
    \<and> books (snd (importCsv (fst (exportCsv True st)) st0))
        = renumber (seq st0) (fst (list_books None st))
    \<and> map payload (books (snd (importCsv (fst (exportCsv True st)) st0)))
        = map payload (fst (list_books None st))
    \<and> map id_book (books (snd (importCsv (fst (exportCsv True st)) st0)))
        = map (\<lambda>i. seq st0 + 1 + int i) [0..<length (books st)]
    \<and> csvParse (csvQuote s) = [s]"
proof -
  define rows where "rows = sort_key id_book (books st)"
  define f where "f = csvHeader @ [NL] @ concat (map csvRow rows)"
  have e: "fst (exportCsv True st) = Some f"
    by (simp add: exportCsv_ok assms(1) f_def rows_def)
  have x: "list_all exportable rows" using assms(4) by (simp add: list_all_iff rows_def)
  have g: "getlines f = csvHeader # map csvLine rows"
    unfolding f_def by (rule getlines_export [OF x])
  have d: "dataLines f = map csvLine rows"
    unfolding dataLines_def g by (simp add: header_is_header)
  note i = importCsv_ok [OF assms(2), of f]
  have b: "books (snd (importCsv (Some f) st0)) = renumber (seq st0) rows"
    using i unfolding d roundtrip_rows [OF x] renumber_reset assms(3)
    by (simp add: largest_id_empty [OF assms(3)])
  have t: "fst (importCsv (Some f) st0) = True"
    using i unfolding g by simp
  have l: "fst (list_books None st) = rows" by (simp add: list_books_ok assms(1) rows_def)
  have n: "length rows = length (books st)" by (simp add: rows_def)
  have q: "csvParse (csvQuote s) = [s]" by (simp add: csvParse_def csvParse_quoted_end)
  show ?thesis
    unfolding e l b using t q by (simp add: payload_renumber ids_renumber n)
qed

theorem export_import_roundtrip_witness:
  "map payload (books (snd (importCsv (fst (exportCsv True quoted_shelf)) empty_store)))
     = [(''Dune'', ''Frank Herbert'', 600, 0, 0, []),
        (''Title: '' @ [DQUOTE] @ ''Big, Book'' @ [DQUOTE], ''A. N. Author'', 250, 100, 1,
         ''9780306406157'')]
   \<and> map id_book (books (snd (importCsv (fst (exportCsv True quoted_shelf)) empty_store))) = [1, 2]
   \<and> csvQuote (''He said '' @ [DQUOTE] @ ''hi'' @ [DQUOTE])
       = [DQUOTE] @ ''He said '' @ [DQUOTE, DQUOTE] @ ''hi'' @ [DQUOTE, DQUOTE, DQUOTE]
   \<and> csvParse (csvQuote (''He said '' @ [DQUOTE] @ ''hi'' @ [DQUOTE]))
       = [''He said '' @ [DQUOTE] @ ''hi'' @ [DQUOTE]]"
proof -
  have f: "faults quoted_shelf = []" "faults empty_store = []" "books empty_store = []"
    by (simp_all add: quoted_shelf_def empty_store_def)
  have x: "list_all exportable (books quoted_shelf)"
    by (simp add: quoted_shelf_def exportable_def INT_MAX_def)
  have l: "fst (list_books None quoted_shelf)
           = [\<lparr>id_book = 2, title = ''Dune'', author = ''Frank Herbert'', totalPages = 600,
                currentPage = 0, status = 0, isbn = []\<rparr>,
              \<lparr>id_book = 4, title = ''Title: '' @ [DQUOTE] @ ''Big, Book'' @ [DQUOTE],
                author = ''A. N. Author'', totalPages = 250, currentPage = 100, status = 1,
                isbn = ''9780306406157''\<rparr>]"
    by (simp add: list_books_ok f(1)) (simp add: quoted_shelf_def)
  note th = export_import_roundtrip [OF f x, of "''He said '' @ [DQUOTE] @ ''hi'' @ [DQUOTE]"]
  have a: "map payload (books (snd (importCsv (fst (exportCsv True quoted_shelf)) empty_store)))
     = [(''Dune'', ''Frank Herbert'', 600, 0, 0, []),
        (''Title: '' @ [DQUOTE] @ ''Big, Book'' @ [DQUOTE], ''A. N. Author'', 250, 100, 1,
         ''9780306406157'')]"
    using th unfolding l by (simp add: payload_def)
  have n: "map (\<lambda>i. seq empty_store + 1 + int i) [0..<length (books quoted_shelf)] = [1, 2]"
    by (simp add: quoted_shelf_def empty_store_def upt_rec)
  have b: "map id_book (books (snd (importCsv (fst (exportCsv True quoted_shelf)) empty_store))) = [1, 2]"
    using th unfolding n by blast
  have c: "csvParse (csvQuote (''He said '' @ [DQUOTE] @ ''hi'' @ [DQUOTE]))
       = [''He said '' @ [DQUOTE] @ ''hi'' @ [DQUOTE]]"
    using th by blast
  have d: "csvQuote (''He said '' @ [DQUOTE] @ ''hi'' @ [DQUOTE])
       = [DQUOTE] @ ''He said '' @ [DQUOTE, DQUOTE] @ ''hi'' @ [DQUOTE, DQUOTE, DQUOTE]"
    by (simp add: csvQuote_def)
  show ?thesis using a b c d by blast
qed

text \<open>
  The claim as stated holds of every record set. A record read beyond its last page comes
  back with its currentPage lowered to totalPages, a status of 7 comes back as 2, and a
  record whose title holds a line feed does not come back at all.
\<close>

theorem roundtrip_changes_records:
  "map payload (books unruly_shelf)
     = [(''Dune'', ''Frank Herbert'', 10, 50, 1, []),
        (''Emma'', ''Jane Austen'', 400, 10, 7, []),
        (''Two'' @ [NL] @ ''Lines'', ''Anon'', 90, 9, 1, [])]
   \<and> map payload (books (snd (importCsv (fst (exportCsv True unruly_shelf)) empty_store)))
     = [(''Dune'', ''Frank Herbert'', 10, 10, 1, []),
        (''Emma'', ''Jane Austen'', 400, 10, 2, [])]"
proof -
  have e: "fst (exportCsv True unruly_shelf)
           = Some (csvHeader @ [NL]
               @ ''1,'' @ [DQUOTE] @ ''Dune'' @ [DQUOTE] @ '','' @ [DQUOTE] @ ''Frank Herbert''
               @ [DQUOTE] @ '',10,50,1,'' @ [DQUOTE, DQUOTE, NL]
               @ ''2,'' @ [DQUOTE] @ ''Emma'' @ [DQUOTE] @ '','' @ [DQUOTE] @ ''Jane Austen''
               @ [DQUOTE] @ '',400,10,7,'' @ [DQUOTE, DQUOTE, NL]
               @ ''3,'' @ [DQUOTE] @ ''Two'' @ [NL] @ ''Lines'' @ [DQUOTE] @ '','' @ [DQUOTE]
               @ ''Anon'' @ [DQUOTE] @ '',90,9,1,'' @ [DQUOTE, DQUOTE, NL])"
    by (simp add: exportCsv_ok unruly_shelf_def csvRow_def csvQuote_def
        to_string_def digits_of.simps digit_char_numerals digit_char_Suc0)
  show ?thesis
    unfolding e by code_simp
qed

text \<open>
  Claim C1. importCsv is atomic: either every valid row of the file is committed or, when a
  storage failure occurs during the batch, the table is left as it was. Without a failure
  every valid row is committed (\<open>importCsv_ok\<close>). The code opens a transaction under the
  comment "transactional import", drops the result of every \<open>add\<close> and commits
  unconditionally; it never rolls back. With the engine failing the second insert of a
  file of three rows, the import returns true and the table holds the first and the third
  row, committed. When the failure is one on which the engine itself rolls the
  transaction back, the third row is inserted outside any transaction and the table holds
  it alone.
\<close>

theorem importCsv_not_atomic:
  "fst (importCsv (Some sample_csv) (empty_store\<lparr>faults := [Done, Done, Failed]\<rparr>)) = True
   \<and> map title (books (snd (importCsv (Some sample_csv) (empty_store\<lparr>faults := [Done, Done, Failed]\<rparr>))))
       = [''Dune'', ''Ulysses'']
   \<and> txn (snd (importCsv (Some sample_csv) (empty_store\<lparr>faults := [Done, Done, Failed]\<rparr>))) = None
   \<and> map title (books (snd (importCsv (Some sample_csv) empty_store)))
       = [''Dune'', ''Emma'', ''Ulysses'']
   \<and> books empty_store = []
   \<and> fst (importCsv (Some sample_csv) (empty_store\<lparr>faults := [Done, Done, FailedRollback]\<rparr>)) = True
   \<and> map title (books (snd (importCsv (Some sample_csv)
         (empty_store\<lparr>faults := [Done, Done, FailedRollback]\<rparr>))))
       = [''Ulysses'']"
  by code_simp

end
